theory Spec2Isabelle
  imports Main "HOL-Library.AList" "HOL-Library.Char_ord" "HOL-Library.List_Lexorder"
begin

section \<open>JavaScript values\<close>

text \<open>
  The values the reporter and the WAF callback handle. Numbers are the integers (the
  program never computes with fractions); an object is its list of own properties in
  insertion order, an array its list of elements.
\<close>

datatype jsval =
    Undefined
  | Null
  | Bool bool
  | Num int
  | Str string
  | Arr "jsval list"
  | Obj "(string \<times> jsval) list"

text \<open>A thrown value: the runtime's TypeError, or an error raised by a collaborator.\<close>

datatype js_error = TypeError | Thrown string

text \<open>The truth value of a condition such as \<open>if (headers[headerName])\<close>.\<close>

fun truthy :: "jsval \<Rightarrow> bool" where
  "truthy Undefined = False"
| "truthy Null = False"
| "truthy (Bool b) = b"
| "truthy (Num n) = (n \<noteq> 0)"
| "truthy (Str s) = (s \<noteq> [])"
| "truthy (Arr xs) = True"
| "truthy (Obj kvs) = True"

text \<open>Reading a property of a known object: an absent property is \<open>undefined\<close>.\<close>

definition obj_get :: "(string \<times> jsval) list \<Rightarrow> string \<Rightarrow> jsval" where
  "obj_get kvs k = (case map_of kvs k of None \<Rightarrow> Undefined | Some v \<Rightarrow> v)"

text \<open>
  Reading a named property \<open>v.k\<close> of any value: on \<open>undefined\<close> and \<open>null\<close> it
  throws a TypeError. The names the program reads are never array indices.
\<close>

fun js_get :: "jsval \<Rightarrow> string \<Rightarrow> js_error + jsval" where
  "js_get Undefined k = Inl TypeError"
| "js_get Null k = Inl TypeError"
| "js_get (Obj kvs) k = Inr (obj_get kvs k)"
| "js_get (Arr xs) k = Inr (if k = ''length'' then Num (int (length xs)) else Undefined)"
| "js_get (Str s) k = Inr (if k = ''length'' then Num (int (length s)) else Undefined)"
| "js_get (Bool b) k = Inr Undefined"
| "js_get (Num n) k = Inr Undefined"

definition digit_char :: "nat \<Rightarrow> char" where
  "digit_char d =
     (if d = 0 then CHR ''0'' else if d = 1 then CHR ''1'' else if d = 2 then CHR ''2''
      else if d = 3 then CHR ''3'' else if d = 4 then CHR ''4'' else if d = 5 then CHR ''5''
      else if d = 6 then CHR ''6'' else if d = 7 then CHR ''7'' else if d = 8 then CHR ''8''
      else CHR ''9'')"

function digits :: "nat \<Rightarrow> string" where
  "digits n = (if n < 10 then [digit_char n] else digits (n div 10) @ [digit_char (n mod 10)])"
  by pat_completeness auto
termination
  by (relation "measure (\<lambda>n. n)") auto

fun join :: "string \<Rightarrow> string list \<Rightarrow> string" where
  "join sep [] = []"
| "join sep [x] = x"
| "join sep (x # y # ys) = x @ sep @ join sep (y # ys)"

text \<open>The string a template literal \<open>`${v}`\<close> puts in place of \<open>v\<close>.\<close>

fun ToString :: "jsval \<Rightarrow> string" where
  "ToString Undefined = ''undefined''"
| "ToString Null = ''null''"
| "ToString (Bool b) = (if b then ''true'' else ''false'')"
| "ToString (Num n) = (if n < 0 then ''-'' @ digits (nat (- n)) else digits (nat n))"
| "ToString (Str s) = s"
| "ToString (Arr xs) =
     join '','' (map (\<lambda>x. if x = Undefined \<or> x = Null then [] else ToString x) xs)"
| "ToString (Obj kvs) = ''[object Object]''"

subsection \<open>JSON.stringify\<close>

text \<open>
  The JSON text is kept as its tree. A property whose value is \<open>undefined\<close> is left
  out of the object; an \<open>undefined\<close> array element is written \<open>null\<close>;
  \<open>JSON.stringify(undefined)\<close> is \<open>undefined\<close>, here \<open>None\<close>.
\<close>

datatype json =
    JNull
  | JBool bool
  | JNum int
  | JStr string
  | JArr "json list"
  | JObj "(string \<times> json) list"

fun JSON_stringify :: "jsval \<Rightarrow> json option" where
  "JSON_stringify Undefined = None"
| "JSON_stringify Null = Some JNull"
| "JSON_stringify (Bool b) = Some (JBool b)"
| "JSON_stringify (Num n) = Some (JNum n)"
| "JSON_stringify (Str s) = Some (JStr s)"
| "JSON_stringify (Arr xs) =
     Some (JArr (map (\<lambda>x. case JSON_stringify x of None \<Rightarrow> JNull | Some j \<Rightarrow> j) xs))"
| "JSON_stringify (Obj kvs) =
     Some (JObj (concat (map (\<lambda>(k, v).
        case JSON_stringify v of None \<Rightarrow> [] | Some j \<Rightarrow> [(k, j)]) kvs)))"



section \<open>The world around the reporter\<close>

text \<open>
  The Address Registry (\<open>require('./addresses')\<close>) is not among the sources: the five
  names the reporter resolves and the registry's other values are parameters.
\<close>

record Addresses_t =
  HTTP_INCOMING_URL :: string
  HTTP_INCOMING_HEADERS :: string
  HTTP_INCOMING_METHOD :: string
  HTTP_INCOMING_REMOTE_IP :: string
  HTTP_INCOMING_REMOTE_PORT :: string
  other_addresses :: "string list"

text \<open>
  The active span, its tracer's scope and configuration, and the exporter's URL. A
  scope whose \<open>config\<close> is \<open>None\<close> has no \<open>_config\<close>, a configuration whose
  \<open>tags\<close> is \<open>None\<close> has no tags object, a scope whose \<open>active\<close> is \<open>None\<close>
  has no active span, and a tracer whose \<open>exporter_writer_url\<close> is \<open>None\<close> lacks
  \<open>_exporter\<close>, its \<open>_writer\<close> or the writer's \<open>_url\<close>.
\<close>

record Span =
  toSpanId :: jsval
  toTraceId :: jsval

record Config =
  service :: jsval
  env :: jsval
  version :: jsval
  tags :: "(string \<times> jsval) list option"

record Scope =
  config :: "Config option"
  active :: "Span option"

record Url =
  protocol :: string
  pathname :: string
  hostname :: string
  port :: string

record Tracer =
  scope :: Scope
  exporter_writer_url :: "Url option"

text \<open>
  The no-op tracer of \<open>noop/tracer.js\<close>: its constructor sets \<open>_scopeManager\<close>,
  \<open>_scope\<close> and \<open>_span\<close> only, so it has no \<open>_exporter\<close>. Its \<open>scope()\<close>
  returns \<open>_scope\<close>, the no-op scope, which is not among the sources and is a
  parameter.
\<close>

definition NoopTracer :: "Scope \<Rightarrow> Tracer" where
  "NoopTracer noop_scope = \<lparr>scope = noop_scope, exporter_writer_url = None\<rparr>"

text \<open>
  What a call finds around it: \<open>getContext()\<close> (\<open>None\<close> when there is no execution
  context, else the context's \<open>resolve\<close>, which returns a value or throws),
  \<open>global._ddtrace._tracer\<close> (\<open>None\<close> when it is not there), the value the
  \<open>n\<close>-th call of \<open>uuid()\<close> returns, the value of \<open>(new Date()).toJSON()\<close> during
  this call, the runtime's URL parser (\<open>new URL(input, base).href\<close>, which may
  throw), its JSON parser on the engine's data (the array of matches, or a throw), and
  the constants of the module's \<open>host\<close> and \<open>library\<close> objects.
\<close>

record ambient =
  Addresses :: Addresses_t
  getContext :: "(string \<Rightarrow> js_error + jsval) option"
  ddtrace_tracer :: "Tracer option"
  uuid :: "nat \<Rightarrow> string"
  Date_toJSON :: string
  URL_href :: "string \<Rightarrow> string \<Rightarrow> js_error + string"
  JSON_parse :: "string \<Rightarrow> js_error + jsval list"
  os_type :: string
  os_hostname :: string
  process_version :: string
  package_version :: string

datatype log_entry = Warn string | Error js_error

datatype gateway_call = AddSubscription "string list" | Clear

text \<open>The options object \<open>flush\<close> hands to \<open>request\<close>.\<close>

record request_options =
  opt_path :: string
  opt_method :: string
  opt_headers :: "(string \<times> string) list"
  opt_data :: "json option"
  opt_socketPath :: "string option"
  opt_protocol :: "string option"
  opt_hostname :: "string option"
  opt_port :: "string option"

text \<open>
  A transmission the transport holds: the options it was given and \<open>eventsArray\<close>, the
  array the payload was serialised from.
\<close>

record transmission =
  options :: request_options
  eventsArray :: "(nat \<times> jsval) list"

text \<open>
  The state the modules share. \<open>events\<close> is the reporter's \<open>Set\<close> in insertion order;
  an event object is paired with its identity, handed out from \<open>next_ref\<close>, since a
  \<open>Set\<close> holds objects by identity. \<open>uuid_calls\<close> counts the calls of \<open>uuid()\<close>
  so far. \<open>lock\<close> is the reporter's flag, \<open>logs\<close> what
  \<open>log.warn\<close> and \<open>log.error\<close> received, \<open>setTag_calls\<close> the tags set on spans,
  \<open>warned\<close> the flag of the WAF callback's module, \<open>Gateway_manager_calls\<close> the calls
  made to \<open>Gateway.manager\<close> and \<open>in_flight\<close> the transmissions whose callback has not
  run yet.
\<close>

record world =
  events :: "(nat \<times> jsval) list"
  next_ref :: nat
  uuid_calls :: nat
  lock :: bool
  in_flight :: "transmission list"
  logs :: "log_entry list"
  setTag_calls :: "(Span \<times> string \<times> jsval) list"
  warned :: bool
  Gateway_manager_calls :: "gateway_call list"

definition Set_add :: "nat \<times> 'a \<Rightarrow> (nat \<times> 'a) list \<Rightarrow> (nat \<times> 'a) list" where
  "Set_add x s = (if fst x \<in> fst ` set s then s else s @ [x])"

definition Set_delete :: "nat \<times> 'a \<Rightarrow> (nat \<times> 'a) list \<Rightarrow> (nat \<times> 'a) list" where
  "Set_delete x s = filter (\<lambda>y. fst y \<noteq> fst x) s"

section \<open>The reporter\<close>

definition FLUSH_INTERVAL :: nat where
  "FLUSH_INTERVAL = 2000"

definition MAX_EVENT_BACKLOG :: nat where
  "MAX_EVENT_BACKLOG = 1000000"

definition host :: "ambient \<Rightarrow> jsval" where
  "host amb = Obj [(''context_version'', Str ''0.1.0''),
                   (''os_type'', Str (os_type amb)),
                   (''hostname'', Str (os_hostname amb))]"

definition library :: "ambient \<Rightarrow> jsval" where
  "library amb = Obj [(''context_version'', Str ''0.1.0''),
                      (''runtime_type'', Str ''nodejs''),
                      (''runtime_version'', Str (process_version amb)),
                      (''lib_version'', Str (package_version amb))]"

definition HEADERS_TO_SEND :: "string list" where
  "HEADERS_TO_SEND =
     [''client-ip'', ''forwarded-for'', ''forwarded'', ''referer'', ''true-client-ip'',
      ''user-agent'', ''via'', ''x-client-ip'', ''x-cluster-client-ip'', ''x-forwarded-for'',
      ''x-forwarded'', ''x-real-ip'']"

text \<open>The loop of \<open>getHeadersToSend\<close> over the allow-list, \<open>result\<close> being built.\<close>

fun headers_loop :: "jsval \<Rightarrow> string list \<Rightarrow> (string \<times> jsval) list \<Rightarrow> (string \<times> jsval) list" where
  "headers_loop headers [] result = result"
| "headers_loop headers (headerName # rest) result =
     (case js_get headers headerName of
        Inl e \<Rightarrow> headers_loop headers rest result
      | Inr v \<Rightarrow>
          if truthy v
          then headers_loop headers rest (AList.update headerName (Arr [v]) result)
          else headers_loop headers rest result)"

definition getHeadersToSend :: "jsval \<Rightarrow> (string \<times> jsval) list" where
  "getHeadersToSend headers =
     (if \<not> truthy headers then [] else headers_loop headers HEADERS_TO_SEND [])"

definition resolveHTTPAddresses :: "ambient \<Rightarrow> js_error + (string \<times> jsval) list" where
  "resolveHTTPAddresses amb =
     (case getContext amb of
        None \<Rightarrow> Inr []
      | Some resolve \<Rightarrow>
     (case resolve (HTTP_INCOMING_URL (Addresses amb)) of Inl e \<Rightarrow> Inl e | Inr path \<Rightarrow>
     (case resolve (HTTP_INCOMING_HEADERS (Addresses amb)) of Inl e \<Rightarrow> Inl e | Inr headers \<Rightarrow>
     (case js_get headers ''host'' of Inl e \<Rightarrow> Inl e | Inr hosthdr \<Rightarrow>
     (case URL_href amb (ToString path) (''http://'' @ ToString hosthdr) of
        Inl e \<Rightarrow> Inl e | Inr href \<Rightarrow>
     (case resolve (HTTP_INCOMING_METHOD (Addresses amb)) of Inl e \<Rightarrow> Inl e | Inr m \<Rightarrow>
     (case resolve (HTTP_INCOMING_REMOTE_IP (Addresses amb)) of Inl e \<Rightarrow> Inl e | Inr ip \<Rightarrow>
     (case resolve (HTTP_INCOMING_REMOTE_PORT (Addresses amb)) of Inl e \<Rightarrow> Inl e | Inr prt \<Rightarrow>
        Inr [(''method'', m),
             (''url'', Str (takeWhile (\<lambda>c. c \<noteq> CHR ''?'') href)),
             (''remote_ip'', ip),
             (''remote_port'', prt),
             (''headers'', Obj (getHeadersToSend headers))]))))))))"

definition getTracerData :: "ambient \<Rightarrow> world \<Rightarrow> js_error + ((string \<times> jsval) list \<times> world)" where
  "getTracerData amb w =
     (case ddtrace_tracer amb of
        None \<Rightarrow> Inl TypeError
      | Some tracer \<Rightarrow>
     (case config (scope tracer) of
        None \<Rightarrow> Inl TypeError
      | Some cfg \<Rightarrow>
     (case tags cfg of
        None \<Rightarrow> Inl TypeError
      | Some kvs \<Rightarrow>
          let result = [(''serviceName'', service cfg),
                        (''serviceEnv'', env cfg),
                        (''serviceVersion'', version cfg),
                        (''tags'', Arr (map (\<lambda>(k, v). Str (k @ '':'' @ ToString v)) kvs))]
          in (case active (scope tracer) of
                None \<Rightarrow> Inr (result, w)
              | Some activeSpan \<Rightarrow>
                  Inr (result @ [(''spanId'', toSpanId activeSpan),
                                 (''traceId'', toTraceId activeSpan)],
                       w\<lparr>setTag_calls := setTag_calls w @
                            [(activeSpan, ''manual.keep'', Undefined),
                             (activeSpan, ''appsec.event'', Bool True)]\<rparr>)))))"

text \<open>The event object \<open>reportAttack\<close> builds.\<close>

definition build_event ::
  "ambient \<Rightarrow> string \<Rightarrow> jsval \<Rightarrow> jsval \<Rightarrow> (string \<times> jsval) list \<Rightarrow> (string \<times> jsval) list \<Rightarrow> jsval" where
  "build_event amb event_id rule ruleMatches resolvedHttp tracerData =
     Obj [(''event_id'', Str event_id),
          (''event_type'', Str ''appsec''),
          (''event_version'', Str ''1.0.0''),
          (''detected_at'', Str (Date_toJSON amb)),
          (''rule'', rule),
          (''rule_match'', ruleMatches),
          (''context'', Obj [
             (''host'', host amb),
             (''http'', Obj [
                (''context_version'', Str ''1.0.0''),
                (''request'', Obj [
                   (''method'', obj_get resolvedHttp ''method''),
                   (''url'', obj_get resolvedHttp ''url''),
                   (''resource'', obj_get resolvedHttp ''route''),
                   (''remote_ip'', obj_get resolvedHttp ''remote_ip''),
                   (''remote_port'', obj_get resolvedHttp ''remote_port''),
                   (''headers'', obj_get resolvedHttp ''headers'')])]),
             (''library'', library amb),
             (''service'', Obj [
                (''context_version'', Str ''0.1.0''),
                (''name'', obj_get tracerData ''serviceName''),
                (''environment'', obj_get tracerData ''serviceEnv''),
                (''version'', obj_get tracerData ''serviceVersion'')]),
             (''span'', Obj [
                (''context_version'', Str ''0.1.0''),
                (''id'', obj_get tracerData ''spanId'')]),
             (''tags'', Obj [
                (''context_version'', Str ''0.1.0''),
                (''values'', obj_get tracerData ''tags'')]),
             (''trace'', Obj [
                (''context_version'', Str ''0.1.0''),
                (''id'', obj_get tracerData ''traceId'')])])]"

text \<open>
  \<open>reportAttack\<close>: \<open>Inl\<close> is a throw (the world is then as before the call),
  \<open>Inr (None, w)\<close> the return of \<open>undefined\<close>, \<open>Inr (Some event, w')\<close> the return
  of the event added to the backlog.
\<close>

definition reportAttack ::
  "ambient \<Rightarrow> jsval \<Rightarrow> jsval \<Rightarrow> jsval \<Rightarrow> world \<Rightarrow> js_error + ((nat \<times> jsval) option \<times> world)" where
  "reportAttack amb rule ruleMatches blocked w =
     (if length (events w) > MAX_EVENT_BACKLOG then Inr (None, w)
      else
     (case resolveHTTPAddresses amb of Inl e \<Rightarrow> Inl e | Inr resolvedHttp \<Rightarrow>
     (case getTracerData amb w of Inl e \<Rightarrow> Inl e | Inr (tracerData, w1) \<Rightarrow>
        let event = (next_ref w1,
                     build_event amb (uuid amb (uuid_calls w1)) rule ruleMatches resolvedHttp tracerData);
            w2 = w1\<lparr>next_ref := Suc (next_ref w1), uuid_calls := Suc (uuid_calls w1)\<rparr>
        in Inr (Some event, w2\<lparr>events := Set_add event (events w2)\<rparr>))))"

subsection \<open>Flushing\<close>

text \<open>
  Modelled from the spec: \<open>request\<close> (\<open>require('../exporters/agent/request')\<close>), the
  transport, is not among the sources. It takes the transmission and returns; the
  transmission stays in flight until it completes, with success or with an error, and
  the callback given to \<open>request\<close> runs once, at that completion.
\<close>

definition request :: "request_options \<Rightarrow> (nat \<times> jsval) list \<Rightarrow> world \<Rightarrow> world" where
  "request opts evs w = w\<lparr>in_flight := in_flight w @ [\<lparr>options = opts, eventsArray = evs\<rparr>]\<rparr>"

text \<open>The callback \<open>flush\<close> gives to \<open>request\<close>.\<close>

definition flush_callback :: "js_error option \<Rightarrow> world \<Rightarrow> world" where
  "flush_callback err w =
     (let w1 = w\<lparr>lock := False\<rparr>
      in case err of None \<Rightarrow> w1 | Some e \<Rightarrow> w1\<lparr>logs := logs w1 @ [Error e]\<rparr>)"

text \<open>The transmission at index \<open>i\<close> completes: it leaves the transport, its callback runs.\<close>

definition complete :: "nat \<Rightarrow> js_error option \<Rightarrow> world \<Rightarrow> world" where
  "complete i err w =
     flush_callback err (w\<lparr>in_flight := take i (in_flight w) @ drop (Suc i) (in_flight w)\<rparr>)"

text \<open>
  The read of \<open>global._ddtrace._tracer._exporter._writer._url\<close>; \<open>None\<close> when a link
  of the chain is missing, which throws a TypeError.
\<close>

definition exporter_url :: "ambient \<Rightarrow> Url option" where
  "exporter_url amb =
     (case ddtrace_tracer amb of None \<Rightarrow> None | Some tracer \<Rightarrow> exporter_writer_url tracer)"

text \<open>The warning of a flush that finds the backlog full.\<close>

definition backlog_warning :: "world \<Rightarrow> world" where
  "backlog_warning w =
     (if length (events w) \<ge> MAX_EVENT_BACKLOG
      then w\<lparr>logs := logs w @ [Warn ''Dropping AppSec events because the backlog is full'']\<rparr>
      else w)"

text \<open>The \<open>options\<close> object as the literal builds it; \<open>key\<close> is what \<open>uuid()\<close> returned.\<close>

definition flush_options :: "string \<Rightarrow> (nat \<times> jsval) list \<Rightarrow> request_options" where
  "flush_options key eventsArr =
     \<lparr>opt_path = ''/appsec/proxy/api/v2/appsecevts'',
      opt_method = ''POST'',
      opt_headers = [(''Content-Type'', ''application/json'')],
      opt_data = JSON_stringify (Obj [
         (''protocol_version'', Num 1),
         (''idempotency_key'', Str key),
         (''events'', Arr (map snd eventsArr))]),
      opt_socketPath = None, opt_protocol = None, opt_hostname = None, opt_port = None\<rparr>"

text \<open>The target of the transmission, taken from the exporter's URL.\<close>

definition set_target :: "Url \<Rightarrow> request_options \<Rightarrow> request_options" where
  "set_target url opts =
     (if protocol url = ''unix:''
      then opts\<lparr>opt_socketPath := Some (pathname url)\<rparr>
      else opts\<lparr>opt_protocol := Some (protocol url),
                opt_hostname := Some (hostname url),
                opt_port := Some (port url)\<rparr>)"

text \<open>
  \<open>flush\<close> returns the error it threw, if any, and the world it leaves. When the read
  of the exporter's URL throws, the backlog is emptied by then and the lock is not set.
\<close>

definition flush :: "ambient \<Rightarrow> world \<Rightarrow> js_error option \<times> world" where
  "flush amb w =
     (if lock w \<or> length (events w) = 0 then (None, w)
      else
        let w1 = backlog_warning w;
            eventsArr = events w1;
            w2 = w1\<lparr>events := fold Set_delete eventsArr (events w1)\<rparr>;
            opts = flush_options (uuid amb (uuid_calls w2)) eventsArr;
            w3 = w2\<lparr>uuid_calls := Suc (uuid_calls w2)\<rparr>
        in (case exporter_url amb of
              None \<Rightarrow> (Some TypeError, w3)
            | Some url \<Rightarrow>
                let opts1 = set_target url opts;
                    w4 = w3\<lparr>lock := True\<rparr>
                in (None, request opts1 eventsArr w4)))"

section \<open>The WAF callback\<close>

text \<open>A rule set as the rule source supplies it (\<open>rules.rules\<close> is the list of rules).\<close>

record Input =
  address :: string

record Condition =
  inputs :: "Input list"

record Rule =
  rule_id :: string
  rule_name :: jsval
  rule_tags :: jsval
  conditions :: "Condition list"

text \<open>
  The native engine (\<open>@datadog/native-appsec\<close>) is opaque: what its calls return or
  throw is a parameter. \<open>res_action\<close> and \<open>res_data\<close> are \<open>result.action\<close> and
  \<open>result.data\<close>.
\<close>

record WafResult =
  res_action :: jsval
  res_data :: string

record WafContext =
  ctx_run :: "jsval \<Rightarrow> nat \<Rightarrow> js_error + WafResult"

record DDWAF =
  createContext :: "js_error + WafContext"
  dispose :: "js_error option"

text \<open>
  An instance of \<open>WAFCallback\<close>. \<open>libAppSec\<close> is the property \<open>clear\<close> reads;
  \<open>None\<close> is a property that was never assigned.
\<close>

record WAFCallback =
  ddwaf :: DDWAF
  wafContextCache :: "nat \<Rightarrow> WafContext option"
  ruleCache :: "string \<Rightarrow> Rule option"
  libAppSec :: "DDWAF option"

definition validAddressSet :: "Addresses_t \<Rightarrow> string list" where
  "validAddressSet A =
     [HTTP_INCOMING_URL A, HTTP_INCOMING_HEADERS A, HTTP_INCOMING_METHOD A,
      HTTP_INCOMING_REMOTE_IP A, HTTP_INCOMING_REMOTE_PORT A] @ other_addresses A"

definition DEFAULT_MAX_BUDGET :: nat where
  "DEFAULT_MAX_BUDGET = 5000"

text \<open>\<open>native rules\<close> is what \<open>require\<close> and \<open>new DDWAF(rules)\<close> return or throw.\<close>

definition loadDDWAF ::
  "(Rule list \<Rightarrow> js_error + DDWAF) \<Rightarrow> Rule list \<Rightarrow> world \<Rightarrow> (js_error + DDWAF) \<times> world" where
  "loadDDWAF native rules w =
     (case native rules of
        Inr d \<Rightarrow> (Inr d, w)
      | Inl err \<Rightarrow>
          (Inl err,
           if \<not> warned w
           then w\<lparr>logs := logs w @ [Warn
                    ''AppSec could not load native package. In-app WAF features will not be available.''],
                  warned := True\<rparr>
           else w))"

text \<open>\<open>Array.from(new Set(xs))\<close>: the first occurrence of each element, in order.\<close>

definition Array_from_Set :: "'a list \<Rightarrow> 'a list" where
  "Array_from_Set xs = fold (\<lambda>x acc. if x \<in> set acc then acc else acc @ [x]) xs []"

text \<open>\<open>s.split(':', 2)[0]\<close>: the part of \<open>s\<close> before its first colon.\<close>

definition split_colon_first :: "string \<Rightarrow> string" where
  "split_colon_first s = takeWhile (\<lambda>c. c \<noteq> CHR '':'') s"

text \<open>
  The inner loop of the constructor over the conditions of the rule \<open>rid\<close>;
  \<open>groups\<close> is \<open>subscriptionGroups\<close>. The first equation is the end of the loop, the
  \<open>then\<close> branch its \<open>break\<close>.
\<close>

fun conditions_loop ::
  "string list \<Rightarrow> string \<Rightarrow> Condition list \<Rightarrow> string list \<times> world \<Rightarrow> string list \<times> world" where
  "conditions_loop valid rid [] (groups, w) = (groups, w)"
| "conditions_loop valid rid (condition # rest) (groups, w) =
     (let addresses = map (\<lambda>input. split_colon_first (address input)) (inputs condition)
      in if \<not> list_all (\<lambda>a. a \<in> set valid) addresses
         then (groups, w\<lparr>logs := logs w @ [Warn (''Skipping invalid rule '' @ rid)]\<rparr>)
         else
           let addresses1 = sort (Array_from_Set addresses);
               hash = join '','' addresses1
           in if hash \<in> set groups then conditions_loop valid rid rest (groups, w)
              else conditions_loop valid rid rest
                     (groups @ [hash],
                      w\<lparr>Gateway_manager_calls :=
                           Gateway_manager_calls w @ [AddSubscription addresses1]\<rparr>))"

fun rules_loop ::
  "string list \<Rightarrow> Rule list \<Rightarrow> WAFCallback \<times> string list \<times> world
     \<Rightarrow> WAFCallback \<times> string list \<times> world" where
  "rules_loop valid [] (self, groups, w) = (self, groups, w)"
| "rules_loop valid (rule # rest) (self, groups, w) =
     (let self1 = self\<lparr>ruleCache := (ruleCache self)(rule_id rule \<mapsto> rule)\<rparr>;
          (groups1, w1) = conditions_loop valid (rule_id rule) (conditions rule) (groups, w)
      in rules_loop valid rest (self1, groups1, w1))"

definition WAFCallback_constructor ::
  "Addresses_t \<Rightarrow> (Rule list \<Rightarrow> js_error + DDWAF) \<Rightarrow> Rule list \<Rightarrow> world
     \<Rightarrow> (js_error + WAFCallback) \<times> world" where
  "WAFCallback_constructor A native rules w =
     (case loadDDWAF native rules w of
        (Inl err, w1) \<Rightarrow> (Inl err, w1)
      | (Inr d, w1) \<Rightarrow>
          let self0 = \<lparr>ddwaf = d, wafContextCache = Map.empty, ruleCache = Map.empty,
                       libAppSec = None\<rparr>;
              (self1, groups, w2) = rules_loop (validAddressSet A) rules (self0, [], w1)
          in (Inr self1, w2))"

text \<open>
  The addresses a condition requires, whether all of them are in the registry, and the
  fingerprint of the condition: the \<open>hash\<close> the constructor computes for it.
\<close>

definition condition_addresses :: "Condition \<Rightarrow> string list" where
  "condition_addresses condition = map (\<lambda>input. split_colon_first (address input)) (inputs condition)"

definition condition_valid :: "string list \<Rightarrow> Condition \<Rightarrow> bool" where
  "condition_valid valid condition = list_all (\<lambda>a. a \<in> set valid) (condition_addresses condition)"



text \<open>Reading an element \<open>v[i]\<close>.\<close>

fun js_index :: "jsval \<Rightarrow> nat \<Rightarrow> js_error + jsval" where
  "js_index Undefined i = Inl TypeError"
| "js_index Null i = Inl TypeError"
| "js_index (Arr xs) i = Inr (if i < length xs then xs ! i else Undefined)"
| "js_index (Str s) i = Inr (if i < length s then Str [s ! i] else Undefined)"
| "js_index (Obj kvs) i = Inr (obj_get kvs (digits i))"
| "js_index (Bool b) i = Inr Undefined"
| "js_index (Num n) i = Inr Undefined"

text \<open>
  The loop of \<open>applyResult\<close> over the points of the parsed data. A throw ends it; the
  events reported before stay in the backlog.
\<close>

fun points_loop :: "ambient \<Rightarrow> WAFCallback \<Rightarrow> jsval list \<Rightarrow> world \<Rightarrow> js_error option \<times> world" where
  "points_loop amb self [] w = (None, w)"
| "points_loop amb self (point # rest) w =
     (case js_get point ''filter'' of Inl e \<Rightarrow> (Some e, w) | Inr flt \<Rightarrow>
     (case js_index flt 0 of Inl e \<Rightarrow> (Some e, w) | Inr match \<Rightarrow>
     (case js_get point ''rule'' of Inl e \<Rightarrow> (Some e, w) | Inr prule \<Rightarrow>
     (case (case prule of Str s \<Rightarrow> ruleCache self s | _ \<Rightarrow> None) of
        None \<Rightarrow> (Some TypeError, w)
      | Some rule \<Rightarrow>
     (case js_get match ''operator'' of Inl e \<Rightarrow> (Some e, w) | Inr operator \<Rightarrow>
     (case js_get match ''operator_value'' of Inl e \<Rightarrow> (Some e, w) | Inr operator_value \<Rightarrow>
     (case js_get match ''binding_accessor'' of Inl e \<Rightarrow> (Some e, w) | Inr binding_accessor \<Rightarrow>
     (case js_get match ''key_path'' of Inl e \<Rightarrow> (Some e, w) | Inr key_path \<Rightarrow>
     (case js_get match ''resolved_value'' of Inl e \<Rightarrow> (Some e, w) | Inr resolved_value \<Rightarrow>
     (case js_get match ''match_status'' of Inl e \<Rightarrow> (Some e, w) | Inr match_status \<Rightarrow>
     (case reportAttack amb
             (Obj [(''eventType'', Str ''appsec.threat.attack''),
                   (''blocked'', Bool False),
                   (''ruleId'', prule),
                   (''ruleName'', rule_name rule),
                   (''ruleTags'', rule_tags rule),
                   (''matchOperator'', operator),
                   (''matchOperatorValue'', operator_value),
                   (''matchParameters'', Arr [Obj [(''address'', binding_accessor),
                                                  (''key_path'', key_path),
                                                  (''value'', resolved_value)]]),
                   (''matchHighlight'', Arr [match_status])])
             Undefined Undefined w of
        Inl e \<Rightarrow> (Some e, w)
      | Inr (event, w1) \<Rightarrow> points_loop amb self rest w1)))))))))))"

definition applyResult :: "ambient \<Rightarrow> WAFCallback \<Rightarrow> WafResult \<Rightarrow> world \<Rightarrow> js_error option \<times> world" where
  "applyResult amb self result w =
     (if truthy (res_action result)
      then (case JSON_parse amb (res_data result) of
              Inl e \<Rightarrow> (Some e, w)
            | Inr points \<Rightarrow> points_loop amb self points w)
      else (None, w))"

text \<open>
  The part of \<open>action\<close> before its \<open>try\<close>: the matcher state of this call, from the
  cache or from \<open>createContext\<close>. \<open>store\<close> is \<open>None\<close> when no store is passed,
  \<open>Some None\<close> when the store has no context, else the context object's identity.
\<close>

definition action_wafContext ::
  "WAFCallback \<Rightarrow> nat option option \<Rightarrow> js_error + (WafContext \<times> WAFCallback)" where
  "action_wafContext self store =
     (case (case store of
              Some (Some key) \<Rightarrow>
                (case wafContextCache self key of
                   Some c \<Rightarrow> Inr (Some c, self)
                 | None \<Rightarrow>
                     (case createContext (ddwaf self) of
                        Inl e \<Rightarrow> Inl e
                      | Inr c \<Rightarrow>
                          Inr (Some c, self\<lparr>wafContextCache := (wafContextCache self)(key \<mapsto> c)\<rparr>)))
            | _ \<Rightarrow> Inr (None, self)) of
        Inl e \<Rightarrow> Inl e
      | Inr (Some c, self1) \<Rightarrow> Inr (c, self1)
      | Inr (None, self1) \<Rightarrow>
          (case createContext (ddwaf self1) of Inl e \<Rightarrow> Inl e | Inr c \<Rightarrow> Inr (c, self1)))"

text \<open>
  \<open>action\<close> returns the error that leaves it, if any, the instance and the world. The
  \<open>try\<close> holds the matcher run and \<open>applyResult\<close>; its \<open>catch\<close> logs the warning.
\<close>

definition action ::
  "ambient \<Rightarrow> WAFCallback \<Rightarrow> jsval \<Rightarrow> nat option option \<Rightarrow> world
     \<Rightarrow> js_error option \<times> WAFCallback \<times> world" where
  "action amb self params store w =
     (case action_wafContext self store of
        Inl e \<Rightarrow> (Some e, self, w)
      | Inr (wafContext, self1) \<Rightarrow>
          (case ctx_run wafContext params DEFAULT_MAX_BUDGET of
             Inl err \<Rightarrow>
               (None, self1, w\<lparr>logs := logs w @ [Warn ''Error while running the AppSec WAF'']\<rparr>)
           | Inr result \<Rightarrow>
               (case applyResult amb self1 result w of
                  (Some err, w1) \<Rightarrow>
                    (None, self1,
                     w1\<lparr>logs := logs w1 @ [Warn ''Error while running the AppSec WAF'']\<rparr>)
                | (None, w1) \<Rightarrow> (None, self1, w1))))"

definition clear :: "WAFCallback \<Rightarrow> world \<Rightarrow> js_error option \<times> WAFCallback \<times> world" where
  "clear self w =
     (case libAppSec self of
        None \<Rightarrow> (Some TypeError, self, w)
      | Some lib \<Rightarrow>
          (case dispose lib of
             Some e \<Rightarrow> (Some e, self, w)
           | None \<Rightarrow>
               (None, self\<lparr>wafContextCache := Map.empty\<rparr>,
                w\<lparr>Gateway_manager_calls := Gateway_manager_calls w @ [Clear]\<rparr>)))"

section \<open>Runs of the program\<close>

text \<open>
  The event loop runs one call at a time to its end: a report, a flush (the timer's or
  a manual one), the completion of a transmission, or a call of the WAF callback, whose
  instance is given with the call. A call that throws leaves the world as it is at the
  throw.
\<close>

datatype call =
    ReportAttack ambient jsval jsval jsval
  | Flush ambient
  | Complete nat "js_error option"
  | Action ambient WAFCallback jsval "nat option option"
  | Construct Addresses_t "Rule list \<Rightarrow> js_error + DDWAF" "Rule list"
  | ClearCall WAFCallback

fun step :: "call \<Rightarrow> world \<Rightarrow> world" where
  "step (ReportAttack amb rule ruleMatches blocked) w =
     (case reportAttack amb rule ruleMatches blocked w of Inl e \<Rightarrow> w | Inr (event, w1) \<Rightarrow> w1)"
| "step (Flush amb) w = snd (flush amb w)"
| "step (Complete i err) w = (if i < length (in_flight w) then complete i err w else w)"
| "step (Action amb self params store) w = snd (snd (action amb self params store w))"
| "step (Construct A native rules) w = snd (WAFCallback_constructor A native rules w)"
| "step (ClearCall self) w = snd (snd (clear self w))"

definition initial :: world where
  "initial = \<lparr>events = [], next_ref = 0, uuid_calls = 0, lock = False, in_flight = [],
              logs = [], setTag_calls = [], warned = False, Gateway_manager_calls = []\<rparr>"

definition run :: "call list \<Rightarrow> world \<Rightarrow> world" where
  "run calls w = fold step calls w"

text \<open>
  What every run keeps: the identities in the backlog and in the transmissions in flight
  are below \<open>next_ref\<close>, no transmission in flight holds an event of the backlog, at
  most one transmission is in flight, the lock is set exactly while one is, and the
  backlog holds at most one event more than \<open>MAX_EVENT_BACKLOG\<close>.
\<close>

definition inv :: "world \<Rightarrow> bool" where
  "inv w \<longleftrightarrow>
     (\<forall>x\<in>set (events w). fst x < next_ref w) \<and>
     (\<forall>t\<in>set (in_flight w). \<forall>x\<in>set (eventsArray t). fst x < next_ref w) \<and>
     (\<forall>t\<in>set (in_flight w). fst ` set (eventsArray t) \<inter> fst ` set (events w) = {}) \<and>
     length (in_flight w) \<le> 1 \<and>
     lock w = (in_flight w \<noteq> []) \<and>
     length (events w) \<le> Suc MAX_EVENT_BACKLOG"

text \<open>
  From \<open>w\<close> to \<open>w'\<close> the backlog gained only new objects: an event of \<open>w'\<close> is an
  event of \<open>w\<close> or has an identity handed out since.
\<close>

definition grows :: "world \<Rightarrow> world \<Rightarrow> bool" where
  "grows w w' \<longleftrightarrow>
     next_ref w \<le> next_ref w' \<and>
     (\<forall>x\<in>set (events w'). x \<in> set (events w) \<or> next_ref w \<le> fst x)"

text \<open>The part of the world the reporter's invariant speaks of.\<close>

definition core :: "world \<Rightarrow> (nat \<times> jsval) list \<times> nat \<times> bool \<times> transmission list" where
  "core w = (events w, next_ref w, lock w, in_flight w)"


text \<open>The value under a path of property names; \<open>undefined\<close> where the path ends early.\<close>

fun jsval_at :: "jsval \<Rightarrow> string list \<Rightarrow> jsval" where
  "jsval_at v [] = v"
| "jsval_at (Obj kvs) (k # ks) = jsval_at (obj_get kvs k) ks"
| "jsval_at v (k # ks) = Undefined"

section \<open>Concrete inputs\<close>

definition example_Addresses :: Addresses_t where
  "example_Addresses =
     \<lparr>HTTP_INCOMING_URL = ''server.request.uri.raw'',
      HTTP_INCOMING_HEADERS = ''server.request.headers.no_cookies'',
      HTTP_INCOMING_METHOD = ''server.request.method'',
      HTTP_INCOMING_REMOTE_IP = ''server.request.client_ip'',
      HTTP_INCOMING_REMOTE_PORT = ''server.request.client_port'',
      other_addresses = []\<rparr>"

text \<open>A tracer with a configuration and an exporter, and no active span.\<close>

definition example_tracer :: Tracer where
  "example_tracer =
     \<lparr>scope = \<lparr>config = Some \<lparr>service = Str ''web'', env = Undefined, version = Undefined,
                               tags = Some [(''_dd.appsec.enabled'', Num 1)]\<rparr>,
               active = None\<rparr>,
      exporter_writer_url = Some \<lparr>protocol = ''http:'', pathname = ''/'',
                                  hostname = ''localhost'', port = ''8126''\<rparr>\<rparr>"

text \<open>
  A call outside any request: no execution context. The URL parser of the example
  returns its input, which is what \<open>new URL(input, base).href\<close> is for the absolute
  URL used below.
\<close>

definition example_ambient :: ambient where
  "example_ambient =
     \<lparr>Addresses = example_Addresses,
      getContext = None,
      ddtrace_tracer = Some example_tracer,
      uuid = (\<lambda>n. ''uuid-'' @ digits n),
      Date_toJSON = ''2021-10-01T12:00:00.000Z'',
      URL_href = (\<lambda>input base. Inr input),
      JSON_parse = (\<lambda>s. Inr []),
      os_type = ''Linux'',
      os_hostname = ''web-1'',
      process_version = ''v14.17.0'',
      package_version = ''2.0.0''\<rparr>"



text \<open>What \<open>getTracerData\<close> returns there, the event a report builds, and the
  transmission a flush of that event starts.\<close>

definition example_tracerData :: "(string \<times> jsval) list" where
  "example_tracerData =
     [(''serviceName'', Str ''web''), (''serviceEnv'', Undefined), (''serviceVersion'', Undefined),
      (''tags'', Arr [Str ''_dd.appsec.enabled:1''])]"

definition example_event :: "nat \<Rightarrow> jsval" where
  "example_event n = build_event example_ambient (uuid example_ambient n) (Str ''rule-1'') Undefined [] example_tracerData"

definition example_transmission :: transmission where
  "example_transmission =
     \<lparr>options = set_target \<lparr>protocol = ''http:'', pathname = ''/'', hostname = ''localhost'', port = ''8126''\<rparr>
                  (flush_options (uuid example_ambient 1) [(0, example_event 0)]),
      eventsArray = [(0, example_event 0)]\<rparr>"

text \<open>
  An engine that loads, and whose matcher run throws; an instance holding it; a rule
  whose second condition names an address outside the registry, and a rule with one
  condition on two addresses.
\<close>

definition example_DDWAF :: DDWAF where
  "example_DDWAF =
     \<lparr>createContext = Inr \<lparr>ctx_run = (\<lambda>params budget. Inl (Thrown ''budget exceeded''))\<rparr>,
      dispose = None\<rparr>"

definition example_instance :: WAFCallback where
  "example_instance =
     \<lparr>ddwaf = example_DDWAF, wafContextCache = Map.empty, ruleCache = Map.empty,
      libAppSec = None\<rparr>"

definition rule_mixed :: Rule where
  "rule_mixed =
     \<lparr>rule_id = ''rule-mixed'', rule_name = Str ''Mixed'', rule_tags = Obj [],
      conditions = [\<lparr>inputs = [\<lparr>address = ''server.request.method''\<rparr>]\<rparr>,
                    \<lparr>inputs = [\<lparr>address = ''unknown.address''\<rparr>]\<rparr>]\<rparr>"

definition rule_valid :: Rule where
  "rule_valid =
     \<lparr>rule_id = ''rule-valid'', rule_name = Str ''Valid'', rule_tags = Obj [],
      conditions = [\<lparr>inputs = [\<lparr>address = ''server.request.uri.raw''\<rparr>,
                                \<lparr>address = ''server.request.headers.no_cookies:user-agent''\<rparr>]\<rparr>]\<rparr>"

text \<open>A rule whose two conditions need the same two addresses.\<close>

definition rule_repeat :: Rule where
  "rule_repeat =
     \<lparr>rule_id = ''rule-repeat'', rule_name = Str ''Repeat'', rule_tags = Obj [],
      conditions = [\<lparr>inputs = [\<lparr>address = ''server.request.uri.raw''\<rparr>,
                                \<lparr>address = ''server.request.headers.no_cookies:user-agent''\<rparr>]\<rparr>,
                    \<lparr>inputs = [\<lparr>address = ''server.request.headers.no_cookies:accept''\<rparr>,
                                \<lparr>address = ''server.request.uri.raw''\<rparr>,
                                \<lparr>address = ''server.request.uri.raw:path''\<rparr>]\<rparr>]\<rparr>"

text \<open>The same surroundings with a tracer that has its configuration and no exporter.\<close>

definition example_no_exporter :: ambient where
  "example_no_exporter =
     example_ambient\<lparr>ddtrace_tracer := Some (example_tracer\<lparr>exporter_writer_url := None\<rparr>)\<rparr>"

text \<open>One report outside any request, then a flush, then a second report.\<close>

definition example_report :: call where
  "example_report = ReportAttack example_ambient (Str ''rule-1'') Undefined Undefined"

definition world_reported :: world where
  "world_reported = run [example_report] initial"

definition world_flushing :: world where
  "world_flushing = run [example_report, Flush example_ambient] initial"

definition world_reported_again :: world where
  "world_reported_again = run [example_report, Flush example_ambient, example_report] initial"

text \<open>As many reports as the bound of the backlog, and no flush.\<close>

definition world_at_bound :: world where
  "world_at_bound = run (replicate MAX_EVENT_BACKLOG example_report) initial"

section \<open>The reporter's invariant\<close>

lemma inv_core: "core w = core w' \<Longrightarrow> inv w = inv w'"
  by (simp add: core_def inv_def)

lemma core_logs [simp]: "core (w\<lparr>logs := l\<rparr>) = core w"
  by (simp add: core_def)

lemma core_warned [simp]: "core (w\<lparr>warned := l\<rparr>) = core w"
  by (simp add: core_def)

lemma core_Gateway [simp]: "core (w\<lparr>Gateway_manager_calls := l\<rparr>) = core w"
  by (simp add: core_def)

lemma inv_initial: "inv initial"
  by (simp add: inv_def initial_def)

lemma getTracerData_core:
  "getTracerData amb w = Inr (t, w1) \<Longrightarrow>
     events w1 = events w \<and> next_ref w1 = next_ref w \<and> lock w1 = lock w \<and>
     in_flight w1 = in_flight w \<and> logs w1 = logs w \<and> uuid_calls w1 = uuid_calls w \<and>
     warned w1 = warned w \<and> Gateway_manager_calls w1 = Gateway_manager_calls w"
  by (auto simp: getTracerData_def Let_def split: option.splits)

lemma reportAttack_cases:
  assumes "reportAttack amb r m b w = Inr (res, w')"
  shows "(res = None \<and> w' = w \<and> length (events w) > MAX_EVENT_BACKLOG) \<or>
         (\<exists>ev. res = Some (next_ref w, ev) \<and> length (events w) \<le> MAX_EVENT_BACKLOG \<and>
            events w' = Set_add (next_ref w, ev) (events w) \<and>
            next_ref w' = Suc (next_ref w) \<and> lock w' = lock w \<and>
            in_flight w' = in_flight w \<and> logs w' = logs w \<and> warned w' = warned w \<and>
            uuid_calls w' = Suc (uuid_calls w) \<and>
            Gateway_manager_calls w' = Gateway_manager_calls w)"
  using assms
  by (auto simp: reportAttack_def Let_def split: if_splits sum.splits prod.splits
           dest!: getTracerData_core)

lemma Set_add_fresh: "\<forall>x\<in>set s. fst x < r \<Longrightarrow> Set_add (r, e) s = s @ [(r, e)]"
  by (auto simp: Set_add_def)

lemma set_Set_add: "set s \<subseteq> set (Set_add x s)"
  by (auto simp: Set_add_def)

lemma inv_reportAttack:
  assumes "inv w" "reportAttack amb r m b w = Inr (res, w')"
  shows "inv w'"
proof -
  from reportAttack_cases[OF assms(2)] show ?thesis
  proof
    assume "res = None \<and> w' = w \<and> length (events w) > MAX_EVENT_BACKLOG"
    with assms(1) show ?thesis by simp
  next
    assume "\<exists>ev. res = Some (next_ref w, ev) \<and> length (events w) \<le> MAX_EVENT_BACKLOG \<and>
            events w' = Set_add (next_ref w, ev) (events w) \<and>
            next_ref w' = Suc (next_ref w) \<and> lock w' = lock w \<and>
            in_flight w' = in_flight w \<and> logs w' = logs w \<and> warned w' = warned w \<and>
            uuid_calls w' = Suc (uuid_calls w) \<and>
            Gateway_manager_calls w' = Gateway_manager_calls w"
    then obtain ev where h: "length (events w) \<le> MAX_EVENT_BACKLOG"
       "events w' = Set_add (next_ref w, ev) (events w)" "next_ref w' = Suc (next_ref w)"
       "lock w' = lock w" "in_flight w' = in_flight w" by blast
    from assms(1) have fr: "\<forall>x\<in>set (events w). fst x < next_ref w" by (simp add: inv_def)
    have ev: "events w' = events w @ [(next_ref w, ev)]"
      using h(2) Set_add_fresh[OF fr] by simp
    have a: "\<forall>x\<in>set (events w'). fst x < next_ref w'"
      using fr ev h(3) by (auto simp: less_Suc_eq)
    have b: "\<forall>t\<in>set (in_flight w'). \<forall>x\<in>set (eventsArray t). fst x < next_ref w'"
      using assms(1) h(3,5) by (auto simp: inv_def less_Suc_eq)
    have c: "\<forall>t\<in>set (in_flight w'). fst ` set (eventsArray t) \<inter> fst ` set (events w') = {}"
    proof
      fix t assume t: "t \<in> set (in_flight w')"
      with assms(1) h(5) have d: "fst ` set (eventsArray t) \<inter> fst ` set (events w) = {}"
        and l: "\<forall>x\<in>set (eventsArray t). fst x < next_ref w"
        by (simp_all add: inv_def)
      from l have "next_ref w \<notin> fst ` set (eventsArray t)" by auto
      with d show "fst ` set (eventsArray t) \<inter> fst ` set (events w') = {}"
        by (simp add: ev)
    qed
    have d: "length (in_flight w') \<le> 1 \<and> lock w' = (in_flight w' \<noteq> [])"
      using assms(1) h(4,5) by (simp add: inv_def)
    have e: "length (events w') \<le> Suc MAX_EVENT_BACKLOG"
      using h(1) ev by simp
    show ?thesis unfolding inv_def using a b c d e by blast
  qed
qed

lemma fold_Set_delete: "fold Set_delete xs ys = filter (\<lambda>y. fst y \<notin> fst ` set xs) ys"
  by (induction xs arbitrary: ys) (auto simp: Set_delete_def intro: filter_cong)

lemma fold_Set_delete_self: "fold Set_delete xs xs = []"
  by (simp add: fold_Set_delete)

lemma flush_noop: "lock w \<or> events w = [] \<Longrightarrow> flush amb w = (None, w)"
  by (auto simp: flush_def)

lemma backlog_warning_fields:
  "events (backlog_warning w) = events w \<and> next_ref (backlog_warning w) = next_ref w \<and>
   lock (backlog_warning w) = lock w \<and> in_flight (backlog_warning w) = in_flight w \<and>
   uuid_calls (backlog_warning w) = uuid_calls w"
  by (simp add: backlog_warning_def)

lemma flush_throws:
  assumes "\<not> lock w" "events w \<noteq> []" "exporter_url amb = None"
  shows "flush amb w = (Some TypeError,
           (backlog_warning w)\<lparr>events := [], uuid_calls := Suc (uuid_calls w)\<rparr>)"
  using assms by (simp add: flush_def Let_def fold_Set_delete_self backlog_warning_fields)

lemma flush_sends:
  assumes "\<not> lock w" "events w \<noteq> []" "exporter_url amb = Some url"
  shows "flush amb w =
           (None, request (set_target url (flush_options (uuid amb (uuid_calls w)) (events w)))
                    (events w)
                    ((backlog_warning w)\<lparr>events := [], uuid_calls := Suc (uuid_calls w),
                                         lock := True\<rparr>))"
  using assms by (simp add: flush_def Let_def fold_Set_delete_self backlog_warning_fields)

lemma flush_NoopTracer_throws:
  assumes "\<not> lock w" "events w \<noteq> []" "ddtrace_tracer amb = Some (NoopTracer noop_scope)"
  shows "fst (flush amb w) = Some TypeError \<and> events (snd (flush amb w)) = [] \<and>
         \<not> lock (snd (flush amb w))"
proof -
  have "exporter_url amb = None" using assms(3) by (simp add: exporter_url_def NoopTracer_def)
  from flush_throws[OF assms(1,2) this] assms(1) show ?thesis
    by (simp add: backlog_warning_fields)
qed

lemma request_fields:
  "events (request opts evs w) = events w \<and> lock (request opts evs w) = lock w \<and>
   next_ref (request opts evs w) = next_ref w \<and> logs (request opts evs w) = logs w \<and>
   in_flight (request opts evs w) = in_flight w @ [\<lparr>options = opts, eventsArray = evs\<rparr>]"
  by (simp add: request_def)

lemma inv_flush:
  assumes "inv w"
  shows "inv (snd (flush amb w))"
proof (cases "lock w \<or> events w = []")
  case True
  then show ?thesis using assms by (simp add: flush_noop)
next
  case False
  then have nl: "\<not> lock w" and ne: "events w \<noteq> []" by simp_all
  from assms nl have nf: "in_flight w = []" by (simp add: inv_def)
  from assms have fr: "\<forall>x\<in>set (events w). fst x < next_ref w" by (simp add: inv_def)
  show ?thesis
  proof (cases "exporter_url amb")
    case None
    show ?thesis using nf nl
      by (simp add: flush_throws[OF nl ne None] inv_def backlog_warning_fields)
  next
    case (Some url)
    show ?thesis using nf fr
      by (simp add: flush_sends[OF nl ne Some] inv_def request_fields backlog_warning_fields)
  qed
qed

lemma complete_fields:
  "events (complete i err w) = events w \<and> next_ref (complete i err w) = next_ref w \<and>
   lock (complete i err w) = False \<and>
   in_flight (complete i err w) = take i (in_flight w) @ drop (Suc i) (in_flight w) \<and>
   logs (complete i err w) = (case err of None \<Rightarrow> logs w | Some e \<Rightarrow> logs w @ [Error e])"
  by (simp add: complete_def flush_callback_def Let_def split: option.splits)

lemma inv_complete:
  assumes "inv w" "i < length (in_flight w)"
  shows "inv (complete i err w)"
proof -
  from assms have "length (in_flight w) = 1" by (simp add: inv_def)
  with assms(2) have "in_flight (complete i err w) = []" by (simp add: complete_fields)
  moreover have "events (complete i err w) = events w" "next_ref (complete i err w) = next_ref w"
    "lock (complete i err w) = False" by (simp_all add: complete_fields)
  ultimately show ?thesis using assms(1) by (simp add: inv_def)
qed

lemma points_loop_Cons:
  "(\<exists>e. points_loop amb self (point # rest) w = (Some e, w)) \<or>
   (\<exists>r res w1. reportAttack amb r Undefined Undefined w = Inr (res, w1) \<and>
       points_loop amb self (point # rest) w = points_loop amb self rest w1)"
  by (simp split: sum.split option.split prod.split) blast

lemma points_loop_inv: "inv w \<Longrightarrow> inv (snd (points_loop amb self pts w))"
proof (induction pts arbitrary: w)
  case Nil
  then show ?case by simp
next
  case (Cons point rest)
  from points_loop_Cons[of amb self point rest w] show ?case
  proof (elim disjE exE conjE)
    fix e assume "points_loop amb self (point # rest) w = (Some e, w)"
    then show ?thesis using Cons.prems by simp
  next
    fix r res w1
    assume r: "reportAttack amb r Undefined Undefined w = Inr (res, w1)"
      and p: "points_loop amb self (point # rest) w = points_loop amb self rest w1"
    from inv_reportAttack[OF Cons.prems r] have "inv w1" .
    then show ?thesis using Cons.IH p by simp
  qed
qed

lemma reportAttack_keeps:
  "reportAttack amb r m b w = Inr (res, w1) \<Longrightarrow>
     lock w1 = lock w \<and> in_flight w1 = in_flight w \<and> set (events w) \<subseteq> set (events w1)"
  using set_Set_add by (fastforce dest!: reportAttack_cases)

lemma points_loop_keeps:
  "lock (snd (points_loop amb self pts w)) = lock w \<and>
   in_flight (snd (points_loop amb self pts w)) = in_flight w \<and>
   set (events w) \<subseteq> set (events (snd (points_loop amb self pts w)))"
proof (induction pts arbitrary: w)
  case Nil
  then show ?case by simp
next
  case (Cons point rest)
  from points_loop_Cons[of amb self point rest w] show ?case
  proof (elim disjE exE conjE)
    fix e assume "points_loop amb self (point # rest) w = (Some e, w)"
    then show ?thesis by simp
  next
    fix r res w1
    assume r: "reportAttack amb r Undefined Undefined w = Inr (res, w1)"
      and p: "points_loop amb self (point # rest) w = points_loop amb self rest w1"
    from reportAttack_keeps[OF r] Cons.IH[of w1] show ?thesis
      unfolding p by auto
  qed
qed

lemma inv_logs [simp]: "inv (w\<lparr>logs := l\<rparr>) = inv w"
  by (simp add: inv_def)

lemma applyResult_inv: "inv w \<Longrightarrow> inv (snd (applyResult amb self res w))"
  by (simp add: applyResult_def points_loop_inv split: sum.split)

lemma applyResult_keeps:
  "lock (snd (applyResult amb self res w)) = lock w \<and>
   in_flight (snd (applyResult amb self res w)) = in_flight w \<and>
   set (events w) \<subseteq> set (events (snd (applyResult amb self res w)))"
  by (simp add: applyResult_def points_loop_keeps split: sum.split)

lemma action_world:
  "snd (snd (action amb self params store w)) = w \<or>
   (\<exists>l. snd (snd (action amb self params store w)) = w\<lparr>logs := l\<rparr>) \<or>
   (\<exists>self1 res. snd (snd (action amb self params store w)) = snd (applyResult amb self1 res w)) \<or>
   (\<exists>self1 res l. snd (snd (action amb self params store w)) =
        (snd (applyResult amb self1 res w))\<lparr>logs := l\<rparr>)"
proof (cases "action_wafContext self store")
  case (Inl e)
  then show ?thesis by (simp add: action_def)
next
  case (Inr p)
  obtain c self1 where p: "p = (c, self1)" by (cases p)
  show ?thesis
  proof (cases "ctx_run c params DEFAULT_MAX_BUDGET")
    case (Inl err)
    then show ?thesis using Inr p by (auto simp: action_def)
  next
    case r: (Inr res)
    obtain eo w1 where a: "applyResult amb self1 res w = (eo, w1)" by (cases "applyResult amb self1 res w")
    have w1: "w1 = snd (applyResult amb self1 res w)" using a by simp
    show ?thesis
    proof (cases eo)
      case None
      then have "snd (snd (action amb self params store w)) = w1"
        using Inr p r a by (simp add: action_def)
      then show ?thesis using w1 by blast
    next
      case (Some e)
      then have "\<exists>l. snd (snd (action amb self params store w)) = w1\<lparr>logs := l\<rparr>"
        using Inr p r a by (auto simp: action_def)
      then show ?thesis using w1 by blast
    qed
  qed
qed

lemma action_inv: "inv w \<Longrightarrow> inv (snd (snd (action amb self params store w)))"
  using action_world[of amb self params store w] applyResult_inv[of w]
  by (elim disjE exE) simp_all

lemma action_keeps:
  "lock (snd (snd (action amb self params store w))) = lock w \<and>
   in_flight (snd (snd (action amb self params store w))) = in_flight w \<and>
   set (events w) \<subseteq> set (events (snd (snd (action amb self params store w))))"
  using action_world[of amb self params store w] applyResult_keeps[of amb _ _ w]
  by (elim disjE exE) simp_all

lemma conditions_loop_core: "core (snd (conditions_loop valid rid cs (g, w))) = core w"
  by (induction cs arbitrary: g w) (simp_all add: Let_def)

lemma rules_loop_core: "core (snd (snd (rules_loop valid rs (self, g, w)))) = core w"
proof (induction rs arbitrary: self g w)
  case Nil
  then show ?case by simp
next
  case (Cons rule rest)
  obtain g1 w1 where c: "conditions_loop valid (rule_id rule) (conditions rule) (g, w) = (g1, w1)"
    by (cases "conditions_loop valid (rule_id rule) (conditions rule) (g, w)")
  from conditions_loop_core[of valid "rule_id rule" "conditions rule" g w] c
  have "core w1 = core w" by simp
  then show ?case using Cons.IH c by (simp add: Let_def)
qed

lemma loadDDWAF_core: "core (snd (loadDDWAF native rules w)) = core w"
  by (simp add: loadDDWAF_def split: sum.split)

lemma constructor_core: "core (snd (WAFCallback_constructor A native rules w)) = core w"
proof (cases "loadDDWAF native rules w")
  case (Pair r w1)
  then have w1: "core w1 = core w" using loadDDWAF_core[of native rules w] by simp
  show ?thesis
  proof (cases r)
    case (Inl e)
    then show ?thesis using Pair w1 by (simp add: WAFCallback_constructor_def)
  next
    case (Inr d)
    then show ?thesis using Pair w1
        rules_loop_core[of "validAddressSet A" rules
          "\<lparr>ddwaf = d, wafContextCache = Map.empty, ruleCache = Map.empty, libAppSec = None\<rparr>" "[]" w1]
      by (auto simp: WAFCallback_constructor_def Let_def split: prod.split)
  qed
qed

lemma clear_core: "core (snd (snd (clear self w))) = core w"
  by (simp add: clear_def split: option.split)

lemma core_keeps:
  "core w' = core w \<Longrightarrow> lock w' = lock w \<and> in_flight w' = in_flight w \<and> events w' = events w"
  by (simp add: core_def)

lemma step_inv: "inv w \<Longrightarrow> inv (step c w)"
proof (cases c)
  case (ReportAttack amb r m b)
  assume "inv w"
  then show ?thesis using ReportAttack inv_reportAttack[of w amb r m b]
    by (simp split: sum.split prod.split)
next
  case (Flush amb)
  assume "inv w"
  then show ?thesis using Flush by (simp add: inv_flush)
next
  case (Complete i err)
  assume "inv w"
  then show ?thesis using Complete by (simp add: inv_complete)
next
  case (Action amb self params store)
  assume "inv w"
  then show ?thesis using Action by (simp add: action_inv)
next
  case (Construct A native rules)
  assume "inv w"
  then show ?thesis using Construct inv_core[OF constructor_core[of A native rules w]] by simp
next
  case (ClearCall self)
  assume "inv w"
  then show ?thesis using ClearCall inv_core[OF clear_core[of self w]] by simp
qed

lemma run_inv: "inv w \<Longrightarrow> inv (run calls w)"
  unfolding run_def by (induction calls arbitrary: w) (simp_all add: step_inv)

lemma step_keeps_lock:
  assumes "lock w" "\<forall>i e. c \<noteq> Complete i e"
  shows "lock (step c w)"
proof (cases c)
  case (ReportAttack amb r m b)
  then show ?thesis using assms(1) reportAttack_keeps[of amb r m b w]
    by (simp split: sum.split prod.split)
next
  case (Flush amb)
  then show ?thesis using assms(1) by (simp add: flush_noop)
next
  case (Complete i err)
  then show ?thesis using assms(2) by simp
next
  case (Action amb self params store)
  then show ?thesis using assms(1) by (simp add: action_keeps)
next
  case (Construct A native rules)
  then show ?thesis using assms(1) core_keeps[OF constructor_core[of A native rules w]] by simp
next
  case (ClearCall self)
  then show ?thesis using assms(1) core_keeps[OF clear_core[of self w]] by simp
qed

lemma step_keeps_events:
  assumes "\<forall>amb. c \<noteq> Flush amb"
  shows "set (events w) \<subseteq> set (events (step c w))"
proof (cases c)
  case (ReportAttack amb r m b)
  then show ?thesis using reportAttack_keeps[of amb r m b w]
    by (simp split: sum.split prod.split)
next
  case (Flush amb)
  then show ?thesis using assms by simp
next
  case (Complete i err)
  then show ?thesis by (simp add: complete_fields)
next
  case (Action amb self params store)
  then show ?thesis by (simp add: action_keeps)
next
  case (Construct A native rules)
  then show ?thesis using core_keeps[OF constructor_core[of A native rules w]] by simp
next
  case (ClearCall self)
  then show ?thesis using core_keeps[OF clear_core[of self w]] by simp
qed

section \<open>Reports\<close>

lemma resolveHTTPAddresses_no_context:
  "getContext amb = None \<Longrightarrow> resolveHTTPAddresses amb = Inr []"
  by (simp add: resolveHTTPAddresses_def)

lemma getTracerData_no_span:
  assumes "ddtrace_tracer amb = Some tracer" "config (scope tracer) = Some cfg"
    "tags cfg = Some kvs" "active (scope tracer) = None"
  shows "getTracerData amb w =
           Inr ([(''serviceName'', service cfg), (''serviceEnv'', env cfg),
                 (''serviceVersion'', version cfg),
                 (''tags'', Arr (map (\<lambda>(k, v). Str (k @ '':'' @ ToString v)) kvs))], w)"
  using assms by (simp add: getTracerData_def)

lemma reportAttack_adds:
  assumes "length (events w) \<le> MAX_EVENT_BACKLOG"
    and "resolveHTTPAddresses amb = Inr h"
    and "getTracerData amb w = Inr (t, w1)"
    and "\<forall>x\<in>set (events w). fst x < next_ref w"
  shows "reportAttack amb r m b w =
           Inr (Some (next_ref w, build_event amb (uuid amb (uuid_calls w)) r m h t),
                w1\<lparr>next_ref := Suc (next_ref w), uuid_calls := Suc (uuid_calls w),
                    events := events w @ [(next_ref w, build_event amb (uuid amb (uuid_calls w)) r m h t)]\<rparr>)"
proof -
  from getTracerData_core[OF assms(3)] have c: "events w1 = events w" "next_ref w1 = next_ref w"
    "uuid_calls w1 = uuid_calls w" by simp_all
  show ?thesis using assms(1,2,3) c Set_add_fresh[OF assms(4)]
    by (simp add: reportAttack_def Let_def)
qed

lemma example_getTracerData: "getTracerData example_ambient w = Inr (example_tracerData, w)"
  by (simp add: getTracerData_def example_ambient_def example_tracer_def example_tracerData_def
      digit_char_def)

lemma example_resolveHTTPAddresses: "resolveHTTPAddresses example_ambient = Inr []"
  by (simp add: resolveHTTPAddresses_def example_ambient_def)

lemma example_reportAttack:
  assumes "length (events w) \<le> MAX_EVENT_BACKLOG" "\<forall>x\<in>set (events w). fst x < next_ref w"
  shows "reportAttack example_ambient r m b w =
           Inr (Some (next_ref w, build_event example_ambient (uuid example_ambient (uuid_calls w)) r m [] example_tracerData),
                w\<lparr>next_ref := Suc (next_ref w), uuid_calls := Suc (uuid_calls w),
                   events := events w @ [(next_ref w,
                      build_event example_ambient (uuid example_ambient (uuid_calls w)) r m [] example_tracerData)]\<rparr>)"
  by (rule reportAttack_adds[OF assms(1) example_resolveHTTPAddresses example_getTracerData assms(2)])

lemma world_reported_eq:
  "world_reported = initial\<lparr>next_ref := 1, uuid_calls := 1, events := [(0, example_event 0)]\<rparr>"
  by (simp add: world_reported_def run_def example_report_def example_event_def
      example_reportAttack initial_def MAX_EVENT_BACKLOG_def)

lemma example_exporter_url:
  "exporter_url example_ambient =
     Some \<lparr>protocol = ''http:'', pathname = ''/'', hostname = ''localhost'', port = ''8126''\<rparr>"
  by (simp add: exporter_url_def example_ambient_def example_tracer_def)

lemma world_flushing_eq:
  "world_flushing = initial\<lparr>next_ref := 1, uuid_calls := 2, lock := True,
      in_flight := [example_transmission]\<rparr>"
proof -
  have "world_flushing = snd (flush example_ambient world_reported)"
    by (simp add: world_flushing_def world_reported_def run_def)
  also have "\<dots> = initial\<lparr>next_ref := 1, uuid_calls := 2, lock := True,
      in_flight := [example_transmission]\<rparr>"
    by (simp add: world_reported_eq flush_sends[OF _ _ example_exporter_url] initial_def
        backlog_warning_def MAX_EVENT_BACKLOG_def request_def example_transmission_def)
  finally show ?thesis .
qed

lemma world_reported_again_eq:
  "world_reported_again = initial\<lparr>next_ref := 2, uuid_calls := 3, lock := True,
      in_flight := [example_transmission], events := [(1, example_event 2)]\<rparr>"
proof -
  have "world_reported_again = step example_report world_flushing"
    by (simp add: world_reported_again_def world_flushing_def run_def)
  also have "\<dots> = initial\<lparr>next_ref := 2, uuid_calls := 3, lock := True,
      in_flight := [example_transmission], events := [(1, example_event 2)]\<rparr>"
    by (simp add: world_flushing_eq example_report_def example_event_def
      example_reportAttack initial_def MAX_EVENT_BACKLOG_def)
  finally show ?thesis .
qed

section \<open>The flush\<close>

text \<open>
  Claim C2. At most one flush transmission is in flight at any time. After every run
  of calls at most one transmission is in flight and the lock is set exactly while one
  is; a flush that finds the lock set or the backlog empty changes nothing; a flush that
  starts a transmission sets the lock before it hands the transmission to the
  transport, and a flush that throws on the exporter's URL starts none and leaves the
  lock unset; no call but the completion of the transmission unsets the lock; the
  completion, with or without an error, unsets it and leaves nothing in flight.
\<close>

theorem flush_one_in_flight:
  "length (in_flight (run calls initial)) \<le> 1 \<and>
   lock (run calls initial) = (in_flight (run calls initial) \<noteq> []) \<and>
   (lock w \<or> events w = [] \<longrightarrow> flush amb w = (None, w)) \<and>
   (\<not> lock w \<and> events w \<noteq> [] \<and> exporter_url amb = Some url \<longrightarrow>
      (\<exists>opts evs w4. flush amb w = (None, request opts evs w4) \<and> lock w4 \<and>
          in_flight w4 = in_flight w \<and>
          in_flight (request opts evs w4) = in_flight w @ [\<lparr>options = opts, eventsArray = evs\<rparr>] \<and>
          lock (request opts evs w4))) \<and>
   (\<not> lock w \<and> events w \<noteq> [] \<and> exporter_url amb = None \<longrightarrow>
      fst (flush amb w) = Some TypeError \<and> \<not> lock (snd (flush amb w)) \<and>
      in_flight (snd (flush amb w)) = in_flight w) \<and>
   (lock w \<and> (\<forall>j e. c \<noteq> Complete j e) \<longrightarrow> lock (step c w)) \<and>
   (i < length (in_flight (run calls initial)) \<longrightarrow>
      \<not> lock (complete i err (run calls initial)) \<and>
      in_flight (complete i err (run calls initial)) = [])"
proof -
  have I: "inv (run calls initial)" by (rule run_inv[OF inv_initial])
  have a: "length (in_flight (run calls initial)) \<le> 1"
    and b: "lock (run calls initial) = (in_flight (run calls initial) \<noteq> [])"
    using I by (simp_all add: inv_def)
  have c: "lock w \<or> events w = [] \<longrightarrow> flush amb w = (None, w)"
    by (simp add: flush_noop)
  have d: "\<not> lock w \<and> events w \<noteq> [] \<and> exporter_url amb = Some url \<longrightarrow>
      (\<exists>opts evs w4. flush amb w = (None, request opts evs w4) \<and> lock w4 \<and>
          in_flight w4 = in_flight w \<and>
          in_flight (request opts evs w4) = in_flight w @ [\<lparr>options = opts, eventsArray = evs\<rparr>] \<and>
          lock (request opts evs w4))"
  proof (intro impI, elim conjE)
    assume h: "\<not> lock w" "events w \<noteq> []" "exporter_url amb = Some url"
    let ?w4 = "(backlog_warning w)\<lparr>events := [], uuid_calls := Suc (uuid_calls w), lock := True\<rparr>"
    let ?opts = "set_target url (flush_options (uuid amb (uuid_calls w)) (events w))"
    have "flush amb w = (None, request ?opts (events w) ?w4)" by (rule flush_sends[OF h])
    moreover have "lock ?w4" "in_flight ?w4 = in_flight w" by (simp_all add: backlog_warning_fields)
    ultimately show "\<exists>opts evs w4. flush amb w = (None, request opts evs w4) \<and> lock w4 \<and>
          in_flight w4 = in_flight w \<and>
          in_flight (request opts evs w4) = in_flight w @ [\<lparr>options = opts, eventsArray = evs\<rparr>] \<and>
          lock (request opts evs w4)"
      by (metis request_fields)
  qed
  have e: "\<not> lock w \<and> events w \<noteq> [] \<and> exporter_url amb = None \<longrightarrow>
      fst (flush amb w) = Some TypeError \<and> \<not> lock (snd (flush amb w)) \<and>
      in_flight (snd (flush amb w)) = in_flight w"
    by (simp add: flush_throws backlog_warning_fields)
  have f: "lock w \<and> (\<forall>j e. c \<noteq> Complete j e) \<longrightarrow> lock (step c w)"
    using step_keeps_lock by blast
  have g: "i < length (in_flight (run calls initial)) \<longrightarrow>
      \<not> lock (complete i err (run calls initial)) \<and>
      in_flight (complete i err (run calls initial)) = []"
  proof
    assume "i < length (in_flight (run calls initial))"
    from inv_complete[OF I this, of err]
    have "lock (complete i err (run calls initial)) =
            (in_flight (complete i err (run calls initial)) \<noteq> [])"
      by (simp add: inv_def)
    moreover have "\<not> lock (complete i err (run calls initial))"
      by (simp add: complete_fields)
    ultimately show "\<not> lock (complete i err (run calls initial)) \<and>
      in_flight (complete i err (run calls initial)) = []" by simp
  qed
  from a b c d e f g show ?thesis by blast
qed

text \<open>
  The theorem at work: during the transmission of the first report a flush is a no-op
  and a report keeps the lock; the completion with an error unlocks. Before the flush,
  with an exporter the flush locks and starts one transmission, without a tracer it
  throws and does not lock.
\<close>

theorem flush_one_in_flight_witness:
  "lock world_flushing \<and>
   flush example_ambient world_flushing = (None, world_flushing) \<and>
   lock (step example_report world_flushing) \<and>
   0 < length (in_flight world_flushing) \<and>
   \<not> lock (complete 0 (Some (Thrown ''ECONNREFUSED'')) world_flushing) \<and>
   in_flight (complete 0 (Some (Thrown ''ECONNREFUSED'')) world_flushing) = [] \<and>
   \<not> lock world_reported \<and> events world_reported \<noteq> [] \<and>
   exporter_url example_ambient \<noteq> None \<and>
   fst (flush example_ambient world_reported) = None \<and>
   lock (snd (flush example_ambient world_reported)) \<and>
   length (in_flight (snd (flush example_ambient world_reported))) = 1 \<and>
   exporter_url (example_ambient\<lparr>ddtrace_tracer := None\<rparr>) = None \<and>
   fst (flush (example_ambient\<lparr>ddtrace_tracer := None\<rparr>) world_reported) = Some TypeError \<and>
   \<not> lock (snd (flush (example_ambient\<lparr>ddtrace_tracer := None\<rparr>) world_reported))"
proof -
  have l: "lock world_flushing" and n: "0 < length (in_flight world_flushing)"
    by (simp_all add: world_flushing_eq)
  have r: "\<not> lock world_reported" "events world_reported \<noteq> []"
    by (simp_all add: world_reported_eq initial_def)
  have u: "exporter_url (example_ambient\<lparr>ddtrace_tracer := None\<rparr>) = None"
    by (simp add: exporter_url_def)
  have c: "\<forall>j e. example_report \<noteq> Complete j e" by (simp add: example_report_def)
  note t1 = flush_one_in_flight[of "[example_report, Flush example_ambient]" world_flushing
      example_ambient _ example_report 0 "Some (Thrown ''ECONNREFUSED'')"]
  note t2 = flush_one_in_flight[of "[]" world_reported example_ambient
      "\<lparr>protocol = ''http:'', pathname = ''/'', hostname = ''localhost'', port = ''8126''\<rparr>"]
  note t3 = flush_one_in_flight[of "[]" world_reported "example_ambient\<lparr>ddtrace_tracer := None\<rparr>"]
  have A: "flush example_ambient world_flushing = (None, world_flushing)"
    "lock (step example_report world_flushing)"
    "\<not> lock (complete 0 (Some (Thrown ''ECONNREFUSED'')) world_flushing)"
    "in_flight (complete 0 (Some (Thrown ''ECONNREFUSED'')) world_flushing) = []"
    using t1 l n c unfolding world_flushing_def[symmetric] by blast+
  have nf: "in_flight world_reported = []"
    by (simp add: world_reported_eq initial_def)
  from t2 r example_exporter_url obtain opts evs w4 where
    fl: "flush example_ambient world_reported = (None, request opts evs w4)"
    and w4: "in_flight (request opts evs w4) =
               in_flight world_reported @ [\<lparr>options = opts, eventsArray = evs\<rparr>]"
            "lock (request opts evs w4)"
    by blast
  have B: "fst (flush example_ambient world_reported) = None"
    "lock (snd (flush example_ambient world_reported))"
    "length (in_flight (snd (flush example_ambient world_reported))) = 1"
    using fl w4 nf by simp_all
  have C: "fst (flush (example_ambient\<lparr>ddtrace_tracer := None\<rparr>) world_reported) = Some TypeError"
     "\<not> lock (snd (flush (example_ambient\<lparr>ddtrace_tracer := None\<rparr>) world_reported))"
    using t3 r u by blast+
  show ?thesis using l n r u A B C example_exporter_url by simp
qed

subsection \<open>The backlog gains only new objects\<close>

lemma grows_refl: "grows w w"
  by (simp add: grows_def)

lemma grows_trans: "grows w w1 \<Longrightarrow> grows w1 w2 \<Longrightarrow> grows w w2"
  unfolding grows_def by (meson le_trans)

lemma grows_core: "core w' = core w \<Longrightarrow> grows w w'"
  by (simp add: core_def grows_def)

lemma grows_logs [simp]: "grows w (w'\<lparr>logs := l\<rparr>) = grows w w'"
  by (simp add: grows_def)

lemma reportAttack_grows: "reportAttack amb r m b w = Inr (res, w1) \<Longrightarrow> grows w w1"
  by (auto simp: grows_def Set_add_def dest!: reportAttack_cases split: if_splits)

lemma points_loop_grows: "grows w (snd (points_loop amb self pts w))"
proof (induction pts arbitrary: w)
  case Nil
  then show ?case by (simp add: grows_refl)
next
  case (Cons point rest)
  from points_loop_Cons[of amb self point rest w] show ?case
  proof (elim disjE exE conjE)
    fix e assume "points_loop amb self (point # rest) w = (Some e, w)"
    then show ?thesis by (simp add: grows_refl)
  next
    fix r res w1
    assume r: "reportAttack amb r Undefined Undefined w = Inr (res, w1)"
      and p: "points_loop amb self (point # rest) w = points_loop amb self rest w1"
    from grows_trans[OF reportAttack_grows[OF r] Cons.IH[of w1]] show ?thesis
      unfolding p .
  qed
qed

lemma applyResult_grows: "grows w (snd (applyResult amb self res w))"
  by (simp add: applyResult_def points_loop_grows grows_refl split: sum.split)

lemma action_grows: "grows w (snd (snd (action amb self params store w)))"
  using action_world[of amb self params store w] applyResult_grows[of w amb]
  by (elim disjE exE) (simp_all add: grows_refl)

lemma flush_grows: "grows w (snd (flush amb w))"
proof (cases "lock w \<or> events w = []")
  case True
  then show ?thesis by (simp add: flush_noop grows_refl)
next
  case False
  then have h: "\<not> lock w" "events w \<noteq> []" by simp_all
  show ?thesis
  proof (cases "exporter_url amb")
    case None
    show ?thesis by (simp add: flush_throws[OF h None] grows_def backlog_warning_fields)
  next
    case (Some url)
    show ?thesis
      by (simp add: flush_sends[OF h Some] grows_def request_fields backlog_warning_fields)
  qed
qed

lemma step_grows: "grows w (step c w)"
proof (cases c)
  case (ReportAttack amb r m b)
  then show ?thesis using reportAttack_grows[of amb r m b w]
    by (simp add: grows_refl split: sum.split prod.split)
next
  case (Flush amb)
  then show ?thesis by (simp add: flush_grows)
next
  case (Complete i err)
  then show ?thesis by (simp add: grows_def complete_fields)
next
  case (Action amb self params store)
  then show ?thesis by (simp add: action_grows)
next
  case (Construct A native rules)
  then show ?thesis using grows_core[OF constructor_core[of A native rules w]] by simp
next
  case (ClearCall self)
  then show ?thesis using grows_core[OF clear_core[of self w]] by simp
qed

lemma run_grows: "grows w (run calls w)"
  unfolding run_def
proof (induction calls arbitrary: w)
  case Nil
  then show ?case by (simp add: grows_refl)
next
  case (Cons c calls)
  from grows_trans[OF step_grows[of w c] Cons.IH[of "step c w"]] show ?case by simp
qed

lemma opt_data_set_target: "opt_data (set_target url opts) = opt_data opts"
  by (simp add: set_target_def)

lemma inv_disjoint:
  assumes "inv w" "t \<in> set (in_flight w)"
  shows "set (eventsArray t) \<inter> set (events w) = {}"
proof -
  from assms have "fst ` set (eventsArray t) \<inter> fst ` set (events w) = {}"
    by (simp add: inv_def)
  then show ?thesis by blast
qed

section \<open>What a flush drains\<close>

text \<open>
  Claim C3. A flush cycle drains exactly the events present in the backlog when it
  starts, and the transmitted batch contains precisely those events. In the code the
  backlog is emptied before the exporter's URL is read: with a tracer that has no
  exporter the report of the example is accepted, and the flush then throws a
  TypeError with the backlog drained and nothing handed to the transport.
\<close>

theorem flush_drains_without_transmission:
  "reportAttack example_no_exporter (Str ''rule-1'') Undefined Undefined initial =
     Inr (Some (0, example_event 0), world_reported) \<and>
   \<not> lock world_reported \<and>
   events world_reported = [(0, example_event 0)] \<and>
   fst (flush example_no_exporter world_reported) = Some TypeError \<and>
   events (snd (flush example_no_exporter world_reported)) = [] \<and>
   in_flight (snd (flush example_no_exporter world_reported)) = []"
proof -
  have g: "getTracerData example_no_exporter initial = Inr (example_tracerData, initial)"
    by (simp add: getTracerData_def example_no_exporter_def example_ambient_def
        example_tracer_def example_tracerData_def digit_char_def)
  have h: "resolveHTTPAddresses example_no_exporter = Inr []"
    by (simp add: resolveHTTPAddresses_def example_no_exporter_def example_ambient_def)
  have a: "length (events initial) \<le> MAX_EVENT_BACKLOG"
    "\<forall>x\<in>set (events initial). fst x < next_ref initial"
    by (simp_all add: initial_def)
  have b: "build_event example_no_exporter (uuid example_no_exporter (uuid_calls initial))
             (Str ''rule-1'') Undefined [] example_tracerData = example_event 0"
    by (simp add: example_event_def build_event_def host_def library_def
        example_no_exporter_def initial_def)
  have r: "reportAttack example_no_exporter (Str ''rule-1'') Undefined Undefined initial =
     Inr (Some (0, example_event 0), world_reported)"
    unfolding reportAttack_adds[OF a(1) h g a(2)] b
    by (simp add: world_reported_eq initial_def)
  have w: "\<not> lock world_reported" "events world_reported = [(0, example_event 0)]"
    "in_flight world_reported = []"
    by (simp_all add: world_reported_eq initial_def)
  have ne: "events world_reported \<noteq> []" using w(2) by simp
  have u: "exporter_url example_no_exporter = None"
    by (simp add: exporter_url_def example_no_exporter_def)
  have f: "fst (flush example_no_exporter world_reported) = Some TypeError"
    "events (snd (flush example_no_exporter world_reported)) = []"
    "in_flight (snd (flush example_no_exporter world_reported)) = []"
    using w(3) by (simp_all add: flush_throws[OF w(1) ne u] backlog_warning_fields)
  from r w(1,2) f show ?thesis by simp
qed

text \<open>
  Claim C3, amended. When the exporter's URL can be read, a flush cycle drains exactly
  the events present in the backlog when it starts. Such a flush, past its guard,
  starts a transmission and leaves the backlog empty, and the transmission holds
  precisely the events the backlog had, serialised in its payload. After every run of
  calls no transmission in flight holds an event of the backlog; an event reported then
  joins the backlog, changes no transmission and is in none of them; and no call but a
  flush takes an event out of the backlog.
\<close>

theorem flush_drains_snapshot:
  "(\<not> lock w \<and> events w \<noteq> [] \<and> exporter_url amb = Some url \<longrightarrow>
      events (snd (flush amb w)) = [] \<and>
      (\<exists>opts. in_flight (snd (flush amb w)) =
                 in_flight w @ [\<lparr>options = opts, eventsArray = events w\<rparr>] \<and>
              opt_data opts =
                 JSON_stringify (Obj [(''protocol_version'', Num 1),
                                      (''idempotency_key'', Str (uuid amb (uuid_calls w))),
                                      (''events'', Arr (map snd (events w)))]))) \<and>
   (\<forall>t\<in>set (in_flight (run calls initial)).
      set (eventsArray t) \<inter> set (events (run calls initial)) = {}) \<and>
   (reportAttack amb r m b (run calls initial) = Inr (Some ev, w1) \<longrightarrow>
      ev \<in> set (events w1) \<and> in_flight w1 = in_flight (run calls initial) \<and>
      (\<forall>t\<in>set (in_flight w1). ev \<notin> set (eventsArray t))) \<and>
   ((\<forall>a. c \<noteq> Flush a) \<longrightarrow> set (events w) \<subseteq> set (events (step c w)))"
proof -
  have I: "inv (run calls initial)" by (rule run_inv[OF inv_initial])
  have a: "\<not> lock w \<and> events w \<noteq> [] \<and> exporter_url amb = Some url \<longrightarrow>
      events (snd (flush amb w)) = [] \<and>
      (\<exists>opts. in_flight (snd (flush amb w)) =
                 in_flight w @ [\<lparr>options = opts, eventsArray = events w\<rparr>] \<and>
              opt_data opts =
                 JSON_stringify (Obj [(''protocol_version'', Num 1),
                                      (''idempotency_key'', Str (uuid amb (uuid_calls w))),
                                      (''events'', Arr (map snd (events w)))]))"
  proof (intro impI, elim conjE)
    assume h: "\<not> lock w" "events w \<noteq> []" "exporter_url amb = Some url"
    let ?opts = "set_target url (flush_options (uuid amb (uuid_calls w)) (events w))"
    have 1: "events (snd (flush amb w)) = []"
      by (simp add: flush_sends[OF h] request_fields)
    have 2: "in_flight (snd (flush amb w)) = in_flight w @ [\<lparr>options = ?opts, eventsArray = events w\<rparr>]"
      by (simp add: flush_sends[OF h] request_fields backlog_warning_fields)
    have 3: "opt_data ?opts = JSON_stringify (Obj [(''protocol_version'', Num 1),
                                      (''idempotency_key'', Str (uuid amb (uuid_calls w))),
                                      (''events'', Arr (map snd (events w)))])"
      unfolding opt_data_set_target by (simp add: flush_options_def)
    from 1 2 3 show "events (snd (flush amb w)) = [] \<and>
      (\<exists>opts. in_flight (snd (flush amb w)) =
                 in_flight w @ [\<lparr>options = opts, eventsArray = events w\<rparr>] \<and>
              opt_data opts =
                 JSON_stringify (Obj [(''protocol_version'', Num 1),
                                      (''idempotency_key'', Str (uuid amb (uuid_calls w))),
                                      (''events'', Arr (map snd (events w)))]))"
      by blast
  qed
  have b: "\<forall>t\<in>set (in_flight (run calls initial)).
      set (eventsArray t) \<inter> set (events (run calls initial)) = {}"
    using inv_disjoint[OF I] by blast
  have c: "reportAttack amb r m b (run calls initial) = Inr (Some ev, w1) \<longrightarrow>
      ev \<in> set (events w1) \<and> in_flight w1 = in_flight (run calls initial) \<and>
      (\<forall>t\<in>set (in_flight w1). ev \<notin> set (eventsArray t))"
  proof
    assume r: "reportAttack amb r m b (run calls initial) = Inr (Some ev, w1)"
    from reportAttack_cases[OF r] obtain e where
      ev: "ev = (next_ref (run calls initial), e)" and
      e: "events w1 = Set_add (next_ref (run calls initial), e) (events (run calls initial))" and
      f: "in_flight w1 = in_flight (run calls initial)" by auto
    from I have fr: "\<forall>x\<in>set (events (run calls initial)). fst x < next_ref (run calls initial)"
      by (simp add: inv_def)
    have m: "ev \<in> set (events w1)" unfolding e ev Set_add_fresh[OF fr] by simp
    have "inv w1" by (rule inv_reportAttack[OF I r])
    then have "\<forall>t\<in>set (in_flight w1). ev \<notin> set (eventsArray t)"
      using inv_disjoint[of w1] m by blast
    with m f show "ev \<in> set (events w1) \<and> in_flight w1 = in_flight (run calls initial) \<and>
      (\<forall>t\<in>set (in_flight w1). ev \<notin> set (eventsArray t))" by simp
  qed
  have d: "(\<forall>a. c \<noteq> Flush a) \<longrightarrow> set (events w) \<subseteq> set (events (step c w))"
    using step_keeps_events by blast
  from a b c d show ?thesis by blast
qed

text \<open>
  The theorem at work: the flush after the first report drains that event into the
  transmission; the event reported during the transmission is in the backlog and not in
  the transmission, and still in the backlog when the transmission has completed.
\<close>

theorem flush_drains_snapshot_witness:
  "\<not> lock world_reported \<and> events world_reported = [(0, example_event 0)] \<and>
   exporter_url example_ambient \<noteq> None \<and>
   events (snd (flush example_ambient world_reported)) = [] \<and>
   map eventsArray (in_flight (snd (flush example_ambient world_reported))) = [[(0, example_event 0)]] \<and>
   in_flight world_flushing = [example_transmission] \<and>
   eventsArray example_transmission = [(0, example_event 0)] \<and>
   reportAttack example_ambient (Str ''rule-1'') Undefined Undefined world_flushing =
     Inr (Some (1, example_event 2), world_reported_again) \<and>
   (1, example_event 2) \<in> set (events world_reported_again) \<and>
   in_flight world_reported_again = [example_transmission] \<and>
   (1, example_event 2) \<notin> set (eventsArray example_transmission) \<and>
   (1, example_event 2) \<in> set (events (step (Complete 0 None) world_reported_again))"
proof -
  have r: "\<not> lock world_reported" "events world_reported = [(0, example_event 0)]"
    "in_flight world_reported = []"
    by (simp_all add: world_reported_eq initial_def)
  have ne: "events world_reported \<noteq> []" using r(2) by simp
  note t1 = flush_drains_snapshot[of world_reported example_ambient
      "\<lparr>protocol = ''http:'', pathname = ''/'', hostname = ''localhost'', port = ''8126''\<rparr>"
      "[example_report, Flush example_ambient]" "Str ''rule-1''" Undefined Undefined
      "(1, example_event 2)" world_reported_again "Complete 0 None"]
  have f: "in_flight world_flushing = [example_transmission]"
    "eventsArray example_transmission = [(0, example_event 0)]"
    by (simp_all add: world_flushing_eq example_transmission_def)
  have ra: "reportAttack example_ambient (Str ''rule-1'') Undefined Undefined world_flushing =
     Inr (Some (1, example_event 2), world_reported_again)"
    by (simp add: world_flushing_eq world_reported_again_eq example_reportAttack initial_def
        MAX_EVENT_BACKLOG_def example_event_def)
  have A: "events (snd (flush example_ambient world_reported)) = []"
    "map eventsArray (in_flight (snd (flush example_ambient world_reported))) = [[(0, example_event 0)]]"
    using t1 r ne example_exporter_url by auto
  have B: "(1, example_event 2) \<in> set (events world_reported_again)"
    "in_flight world_reported_again = in_flight world_flushing"
    "\<forall>t\<in>set (in_flight world_reported_again). (1, example_event 2) \<notin> set (eventsArray t)"
    using t1 ra unfolding world_flushing_def[symmetric] by blast+
  have C: "(1, example_event 2) \<notin> set (eventsArray example_transmission)"
    using B(2,3) f(1) by simp
  note t2 = flush_drains_snapshot[of world_reported_again _ _ "[]" _ _ _ _ _ "Complete 0 None"]
  have D: "(1, example_event 2) \<in> set (events (step (Complete 0 None) world_reported_again))"
    using t2 B(1) by blast
  show ?thesis using r ne example_exporter_url f ra A B C D by simp
qed

section \<open>Delivery at most once\<close>

text \<open>
  Claim C4. Delivery is at most once. A flush that gets past its guard leaves the
  backlog empty, whether or not it starts a transmission, and the backlog is empty
  already in the world it hands with the batch to the transport. When a transmission
  completes with an error, the backlog is as before the callback, the error is logged,
  nothing is in flight, and no event of the failed batch is in the backlog then or
  after any later calls.
\<close>

theorem failed_batch_not_requeued:
  "(\<not> lock w \<and> events w \<noteq> [] \<longrightarrow> events (snd (flush amb w)) = []) \<and>
   (\<not> lock w \<and> events w \<noteq> [] \<and> exporter_url amb = Some url \<longrightarrow>
      (\<exists>opts w4. flush amb w = (None, request opts (events w) w4) \<and> events w4 = [])) \<and>
   (i < length (in_flight (run calls initial)) \<longrightarrow>
      events (complete i (Some e) (run calls initial)) = events (run calls initial) \<and>
      logs (complete i (Some e) (run calls initial)) = logs (run calls initial) @ [Error e] \<and>
      in_flight (complete i (Some e) (run calls initial)) = [] \<and>
      (\<forall>x\<in>set (eventsArray (in_flight (run calls initial) ! i)).
          x \<notin> set (events (run later (complete i (Some e) (run calls initial))))))"
proof -
  have I: "inv (run calls initial)" by (rule run_inv[OF inv_initial])
  have a: "\<not> lock w \<and> events w \<noteq> [] \<longrightarrow> events (snd (flush amb w)) = []"
  proof (intro impI, elim conjE)
    assume h: "\<not> lock w" "events w \<noteq> []"
    show "events (snd (flush amb w)) = []"
    proof (cases "exporter_url amb")
      case None
      show ?thesis by (simp add: flush_throws[OF h None])
    next
      case (Some u)
      show ?thesis by (simp add: flush_sends[OF h Some] request_fields)
    qed
  qed
  have b: "\<not> lock w \<and> events w \<noteq> [] \<and> exporter_url amb = Some url \<longrightarrow>
      (\<exists>opts w4. flush amb w = (None, request opts (events w) w4) \<and> events w4 = [])"
  proof (intro impI, elim conjE)
    assume h: "\<not> lock w" "events w \<noteq> []" "exporter_url amb = Some url"
    let ?w4 = "(backlog_warning w)\<lparr>events := [], uuid_calls := Suc (uuid_calls w), lock := True\<rparr>"
    have "events ?w4 = []" by simp
    with flush_sends[OF h]
    show "\<exists>opts w4. flush amb w = (None, request opts (events w) w4) \<and> events w4 = []"
      by blast
  qed
  have c: "i < length (in_flight (run calls initial)) \<longrightarrow>
      events (complete i (Some e) (run calls initial)) = events (run calls initial) \<and>
      logs (complete i (Some e) (run calls initial)) = logs (run calls initial) @ [Error e] \<and>
      in_flight (complete i (Some e) (run calls initial)) = [] \<and>
      (\<forall>x\<in>set (eventsArray (in_flight (run calls initial) ! i)).
          x \<notin> set (events (run later (complete i (Some e) (run calls initial)))))"
  proof
    assume i: "i < length (in_flight (run calls initial))"
    let ?W = "run calls initial"
    let ?W' = "complete i (Some e) ?W"
    have 1: "events ?W' = events ?W" and 2: "logs ?W' = logs ?W @ [Error e]"
      and nr: "next_ref ?W' = next_ref ?W"
      by (simp_all add: complete_fields)
    from inv_complete[OF I i, of "Some e"] have "lock ?W' = (in_flight ?W' \<noteq> [])"
      by (simp add: inv_def)
    moreover have "\<not> lock ?W'" by (simp add: complete_fields)
    ultimately have 3: "in_flight ?W' = []" by simp
    have t: "in_flight ?W ! i \<in> set (in_flight ?W)" using i by simp
    have 4: "\<forall>x\<in>set (eventsArray (in_flight ?W ! i)). x \<notin> set (events (run later ?W'))"
    proof
      fix x assume x: "x \<in> set (eventsArray (in_flight ?W ! i))"
      from I t x have lt: "fst x < next_ref ?W" by (simp add: inv_def)
      from inv_disjoint[OF I t] x have nx: "x \<notin> set (events ?W)" by blast
      show "x \<notin> set (events (run later ?W'))"
      proof
        assume "x \<in> set (events (run later ?W'))"
        with run_grows[of ?W' later] have "x \<in> set (events ?W') \<or> next_ref ?W' \<le> fst x"
          by (simp add: grows_def)
        with nx lt 1 nr show False by simp
      qed
    qed
    from 1 2 3 4 show "events ?W' = events ?W \<and> logs ?W' = logs ?W @ [Error e] \<and>
      in_flight ?W' = [] \<and>
      (\<forall>x\<in>set (eventsArray (in_flight ?W ! i)). x \<notin> set (events (run later ?W')))"
      by blast
  qed
  from a b c show ?thesis by blast
qed

text \<open>
  The theorem at work: the transmission of the first report fails; the error is logged
  and the event is not in the backlog, also after a further report and flush.
\<close>

theorem failed_batch_not_requeued_witness:
  "\<not> lock world_reported \<and> events world_reported \<noteq> [] \<and>
   exporter_url example_ambient \<noteq> None \<and>
   events (snd (flush example_ambient world_reported)) = [] \<and>
   0 < length (in_flight world_flushing) \<and>
   eventsArray (in_flight world_flushing ! 0) = [(0, example_event 0)] \<and>
   events (complete 0 (Some (Thrown ''ECONNREFUSED'')) world_flushing) = [] \<and>
   logs (complete 0 (Some (Thrown ''ECONNREFUSED'')) world_flushing) =
     [Error (Thrown ''ECONNREFUSED'')] \<and>
   in_flight (complete 0 (Some (Thrown ''ECONNREFUSED'')) world_flushing) = [] \<and>
   (0, example_event 0) \<notin>
     set (events (run [example_report, Flush example_ambient]
                    (complete 0 (Some (Thrown ''ECONNREFUSED'')) world_flushing)))"
proof -
  have r: "\<not> lock world_reported" "events world_reported \<noteq> []"
    by (simp_all add: world_reported_eq initial_def)
  have f: "0 < length (in_flight world_flushing)"
    "eventsArray (in_flight world_flushing ! 0) = [(0, example_event 0)]"
    "events world_flushing = []" "logs world_flushing = []"
    by (simp_all add: world_flushing_eq example_transmission_def initial_def)
  note t = failed_batch_not_requeued[of world_reported example_ambient
      "\<lparr>protocol = ''http:'', pathname = ''/'', hostname = ''localhost'', port = ''8126''\<rparr>"
      0 "[example_report, Flush example_ambient]" "Thrown ''ECONNREFUSED''"
      "[example_report, Flush example_ambient]"]
  have A: "events (snd (flush example_ambient world_reported)) = []"
    using t r by blast
  have B: "events (complete 0 (Some (Thrown ''ECONNREFUSED'')) world_flushing) = events world_flushing"
    "logs (complete 0 (Some (Thrown ''ECONNREFUSED'')) world_flushing) =
       logs world_flushing @ [Error (Thrown ''ECONNREFUSED'')]"
    "in_flight (complete 0 (Some (Thrown ''ECONNREFUSED'')) world_flushing) = []"
    "\<forall>x\<in>set (eventsArray (in_flight world_flushing ! 0)).
        x \<notin> set (events (run [example_report, Flush example_ambient]
                    (complete 0 (Some (Thrown ''ECONNREFUSED'')) world_flushing)))"
    using t f(1) unfolding world_flushing_def[symmetric] by blast+
  show ?thesis using r f A B example_exporter_url by simp
qed

section \<open>The bound of the backlog\<close>

lemma backlog_at_most_Suc_bound: "length (events (run calls initial)) \<le> Suc MAX_EVENT_BACKLOG"
  using run_inv[OF inv_initial, of calls] by (simp add: inv_def)

lemma run_snoc: "run (calls @ [c]) w = step c (run calls w)"
  by (simp add: run_def)

lemma run_example_reports:
  "n \<le> Suc MAX_EVENT_BACKLOG \<Longrightarrow>
     run (replicate n example_report) initial =
       initial\<lparr>next_ref := n, uuid_calls := n,
               events := map (\<lambda>k. (k, example_event k)) [0..<n]\<rparr>"
proof (induction n)
  case 0
  show ?case by (simp add: run_def initial_def)
next
  case (Suc n)
  let ?W = "initial\<lparr>next_ref := n, uuid_calls := n,
               events := map (\<lambda>k. (k, example_event k)) [0..<n]\<rparr>"
  from Suc have W: "run (replicate n example_report) initial = ?W" and n: "n \<le> MAX_EVENT_BACKLOG"
    by simp_all
  have len: "length (events ?W) \<le> MAX_EVENT_BACKLOG" using n by simp
  have fr: "\<forall>x\<in>set (events ?W). fst x < next_ref ?W" by auto
  have "replicate (Suc n) example_report = replicate n example_report @ [example_report]"
    by (simp add: replicate_append_same)
  then have "run (replicate (Suc n) example_report) initial = step example_report ?W"
    by (simp only: run_snoc W)
  also have "\<dots> = initial\<lparr>next_ref := Suc n, uuid_calls := Suc n,
               events := map (\<lambda>k. (k, example_event k)) [0..<Suc n]\<rparr>"
    unfolding example_report_def step.simps example_reportAttack[OF len fr]
    by (simp add: example_event_def)
  finally show ?case .
qed

text \<open>
  Claim C1. The backlog never exceeds \<open>MAX_EVENT_BACKLOG\<close>, a report at the bound
  being refused. In the code the report is refused only above the bound: after a
  million reports the backlog holds \<open>MAX_EVENT_BACKLOG\<close> events, and the next report
  returns its event and leaves one event more than the bound in the backlog.
\<close>

theorem reportAttack_at_bound_adds:
  "length (events world_at_bound) = MAX_EVENT_BACKLOG \<and>
   (\<exists>ev w'. reportAttack example_ambient (Str ''rule-1'') Undefined Undefined world_at_bound =
               Inr (Some ev, w') \<and>
            length (events w') = Suc MAX_EVENT_BACKLOG \<and>
            MAX_EVENT_BACKLOG < length (events w'))"
proof -
  have W: "world_at_bound =
       initial\<lparr>next_ref := MAX_EVENT_BACKLOG, uuid_calls := MAX_EVENT_BACKLOG,
               events := map (\<lambda>k. (k, example_event k)) [0..<MAX_EVENT_BACKLOG]\<rparr>"
    unfolding world_at_bound_def by (rule run_example_reports) simp
  have len: "length (events world_at_bound) = MAX_EVENT_BACKLOG"
    unfolding W by simp
  have fr: "\<forall>x\<in>set (events world_at_bound). fst x < next_ref world_at_bound"
    unfolding W by auto
  have l2: "length (events world_at_bound) \<le> MAX_EVENT_BACKLOG" using len by simp
  from example_reportAttack[OF l2 fr, of "Str ''rule-1''" Undefined Undefined] len
  show ?thesis by simp
qed

section \<open>Reports without ambient context\<close>

lemma resolveHTTPAddresses_cases:
  assumes "resolveHTTPAddresses amb = Inr h"
  shows "(getContext amb = None \<and> h = []) \<or>
         (\<exists>resolve p hdrs hh href m ip prt.
            getContext amb = Some resolve \<and>
            resolve (HTTP_INCOMING_URL (Addresses amb)) = Inr p \<and>
            resolve (HTTP_INCOMING_HEADERS (Addresses amb)) = Inr hdrs \<and>
            js_get hdrs ''host'' = Inr hh \<and>
            URL_href amb (ToString p) (''http://'' @ ToString hh) = Inr href \<and>
            resolve (HTTP_INCOMING_METHOD (Addresses amb)) = Inr m \<and>
            resolve (HTTP_INCOMING_REMOTE_IP (Addresses amb)) = Inr ip \<and>
            resolve (HTTP_INCOMING_REMOTE_PORT (Addresses amb)) = Inr prt \<and>
            h = [(''method'', m),
                 (''url'', Str (takeWhile (\<lambda>c. c \<noteq> CHR ''?'') href)),
                 (''remote_ip'', ip),
                 (''remote_port'', prt),
                 (''headers'', Obj (getHeadersToSend hdrs))])"
  using assms
  by (auto simp: resolveHTTPAddresses_def split: option.splits sum.splits)

lemma resolved_route: "resolveHTTPAddresses amb = Inr h \<Longrightarrow> obj_get h ''route'' = Undefined"
  by (auto dest!: resolveHTTPAddresses_cases simp: obj_get_def)


lemma reportAttack_resolve_throws:
  assumes "length (events w) \<le> MAX_EVENT_BACKLOG" "resolveHTTPAddresses amb = Inl e"
  shows "reportAttack amb r m b w = Inl e"
  using assms by (simp add: reportAttack_def)

lemma resolveHTTPAddresses_headers_undefined:
  assumes "getContext amb = Some resolve"
    "resolve (HTTP_INCOMING_URL (Addresses amb)) = Inr p"
    "resolve (HTTP_INCOMING_HEADERS (Addresses amb)) = Inr Undefined"
  shows "resolveHTTPAddresses amb = Inl TypeError"
  using assms by (simp add: resolveHTTPAddresses_def)

text \<open>
  Claim C5. Below the bound of the backlog a report never fails: without ambient
  context it still returns an event. In the code a report without a tracer throws a
  TypeError, and so does a report in an execution context where the HTTP addresses are
  not resolved: where \<open>resolve\<close> returns \<open>undefined\<close> the read of \<open>headers.host\<close>
  throws, where \<open>resolve\<close> throws the error leaves \<open>reportAttack\<close>.
\<close>

theorem reportAttack_without_tracer_throws:
  "length (events initial) < MAX_EVENT_BACKLOG \<and>
   reportAttack (example_ambient\<lparr>ddtrace_tracer := None\<rparr>)
      (Str ''rule-1'') Undefined Undefined initial = Inl TypeError \<and>
   reportAttack (example_ambient\<lparr>getContext := Some (\<lambda>a. Inr Undefined)\<rparr>)
      (Str ''rule-1'') Undefined Undefined initial = Inl TypeError \<and>
   reportAttack (example_ambient\<lparr>getContext := Some (\<lambda>a. Inl (Thrown ''NotResolved''))\<rparr>)
      (Str ''rule-1'') Undefined Undefined initial = Inl (Thrown ''NotResolved'')"
  by (simp add: reportAttack_def MAX_EVENT_BACKLOG_def initial_def resolveHTTPAddresses_def
      getTracerData_def example_ambient_def)

text \<open>
  Claim C5, amended. With a tracer whose scope has a configuration with tags, a report
  below the bound for which the resolution of the HTTP addresses does not throw,
  as it never does outside an execution context, returns an event. The fields of its
  HTTP request are what was resolved, all \<open>undefined\<close> outside an execution
  context; the ids of its span and trace are the active span's, \<open>undefined\<close> when
  no span is active.
\<close>

theorem reportAttack_degrades:
  assumes "length (events w) < MAX_EVENT_BACKLOG"
    and "ddtrace_tracer amb = Some tracer"
    and "config (scope tracer) = Some cfg"
    and "tags cfg = Some kvs"
    and "resolveHTTPAddresses amb = Inr h"
  shows "\<exists>ev w'. reportAttack amb rule ruleMatches blocked w = Inr (Some ev, w') \<and>
           events w' = Set_add ev (events w) \<and>
           jsval_at (snd ev) [''context'', ''http'', ''request''] =
             Obj [(''method'', obj_get h ''method''), (''url'', obj_get h ''url''),
                  (''resource'', Undefined),
                  (''remote_ip'', obj_get h ''remote_ip''),
                  (''remote_port'', obj_get h ''remote_port''),
                  (''headers'', obj_get h ''headers'')] \<and>
           (getContext amb = None \<longrightarrow>
              jsval_at (snd ev) [''context'', ''http'', ''request''] =
                Obj [(''method'', Undefined), (''url'', Undefined), (''resource'', Undefined),
                     (''remote_ip'', Undefined), (''remote_port'', Undefined),
                     (''headers'', Undefined)]) \<and>
           jsval_at (snd ev) [''context'', ''span'', ''id''] =
             (case active (scope tracer) of None \<Rightarrow> Undefined | Some sp \<Rightarrow> toSpanId sp) \<and>
           jsval_at (snd ev) [''context'', ''trace'', ''id''] =
             (case active (scope tracer) of None \<Rightarrow> Undefined | Some sp \<Rightarrow> toTraceId sp) \<and>
           jsval_at (snd ev) [''context'', ''service'', ''name''] = service cfg"
proof -
  have rt: "obj_get h ''route'' = Undefined" by (rule resolved_route[OF assms(5)])
  have nc: "getContext amb = None \<Longrightarrow> h = []"
    using resolveHTTPAddresses_no_context[of amb] assms(5) by simp
  show ?thesis
  proof (cases "active (scope tracer)")
    case None
    show ?thesis using assms None rt nc
      by (auto simp: reportAttack_def getTracerData_def Let_def build_event_def obj_get_def)
  next
    case (Some sp)
    show ?thesis using assms Some rt nc
      by (auto simp: reportAttack_def getTracerData_def Let_def build_event_def obj_get_def)
  qed
qed

text \<open>
  The theorem at work: the first report of the example, outside any request and with no
  active span.
\<close>

theorem reportAttack_degrades_witness:
  "length (events initial) < MAX_EVENT_BACKLOG \<and>
   ddtrace_tracer example_ambient = Some example_tracer \<and>
   config (scope example_tracer) =
      Some \<lparr>service = Str ''web'', env = Undefined, version = Undefined,
            tags = Some [(''_dd.appsec.enabled'', Num 1)]\<rparr> \<and>
   getContext example_ambient = None \<and>
   resolveHTTPAddresses example_ambient = Inr [] \<and>
   active (scope example_tracer) = None \<and>
   (\<exists>ev w'. reportAttack example_ambient (Str ''rule-1'') Undefined Undefined initial =
       Inr (Some ev, w') \<and>
       events w' = [ev] \<and>
       jsval_at (snd ev) [''context'', ''http'', ''request''] =
         Obj [(''method'', Undefined), (''url'', Undefined), (''resource'', Undefined),
              (''remote_ip'', Undefined), (''remote_port'', Undefined),
              (''headers'', Undefined)] \<and>
       jsval_at (snd ev) [''context'', ''span'', ''id''] = Undefined \<and>
       jsval_at (snd ev) [''context'', ''trace'', ''id''] = Undefined \<and>
       jsval_at (snd ev) [''context'', ''service'', ''name''] = Str ''web'')"
proof -
  have a: "length (events initial) < MAX_EVENT_BACKLOG"
    by (simp add: initial_def MAX_EVENT_BACKLOG_def)
  have b: "ddtrace_tracer example_ambient = Some example_tracer"
    and e: "getContext example_ambient = None"
    by (simp_all add: example_ambient_def)
  have c: "config (scope example_tracer) =
      Some \<lparr>service = Str ''web'', env = Undefined, version = Undefined,
            tags = Some [(''_dd.appsec.enabled'', Num 1)]\<rparr>"
    and n: "active (scope example_tracer) = None"
    by (simp_all add: example_tracer_def)
  from reportAttack_degrades[OF a b c _ example_resolveHTTPAddresses,
      of "[(''_dd.appsec.enabled'', Num 1)]" "Str ''rule-1''" Undefined Undefined]
  obtain ev w' where r: "reportAttack example_ambient (Str ''rule-1'') Undefined Undefined initial =
       Inr (Some ev, w')"
    and f: "events w' = Set_add ev (events initial)"
       "getContext example_ambient = None \<longrightarrow>
          jsval_at (snd ev) [''context'', ''http'', ''request''] =
             Obj [(''method'', Undefined), (''url'', Undefined), (''resource'', Undefined),
                  (''remote_ip'', Undefined), (''remote_port'', Undefined),
                  (''headers'', Undefined)]"
       "jsval_at (snd ev) [''context'', ''span'', ''id''] =
             (case active (scope example_tracer) of None \<Rightarrow> Undefined | Some sp \<Rightarrow> toSpanId sp)"
       "jsval_at (snd ev) [''context'', ''trace'', ''id''] =
             (case active (scope example_tracer) of None \<Rightarrow> Undefined | Some sp \<Rightarrow> toTraceId sp)"
       "jsval_at (snd ev) [''context'', ''service'', ''name''] = Str ''web''"
    by auto
  have ev1: "events w' = [ev]" using f(1) by (simp add: initial_def Set_add_def)
  show ?thesis using a b c e n r ev1 f(2,3,4,5) example_resolveHTTPAddresses by simp
qed

section \<open>The serialised event\<close>





lemma stringify_None_iff: "JSON_stringify v = None \<longleftrightarrow> v = Undefined"
  by (cases v) simp_all

















section \<open>The WAF callback's constructor\<close>

text \<open>
  Claim C7. A rule with a condition on an address outside the registry is dropped
  entirely: it produces no subscription. In the code the conditions of a rule are
  registered one by one and the loop breaks at the first invalid one: the rule of the
  example, whose second condition is invalid, has registered the subscription of its
  first condition when the warning is logged. The valid rule loaded with it registers,
  and the load does not fail.
\<close>

theorem invalid_rule_registers_earlier_conditions:
  "\<exists>self w'. WAFCallback_constructor example_Addresses (\<lambda>rules. Inr example_DDWAF)
                 [rule_mixed, rule_valid] initial = (Inr self, w') \<and>
     \<not> condition_valid (validAddressSet example_Addresses) (conditions rule_mixed ! 1) \<and>
     Gateway_manager_calls w' =
       [AddSubscription [''server.request.method''],
        AddSubscription [''server.request.headers.no_cookies'', ''server.request.uri.raw'']] \<and>
     logs w' = [Warn ''Skipping invalid rule rule-mixed'']"
  by (simp add: WAFCallback_constructor_def loadDDWAF_def rule_mixed_def rule_valid_def
      validAddressSet_def example_Addresses_def split_colon_first_def Array_from_Set_def initial_def
      less_eq_char_def less_char_def Let_def condition_valid_def condition_addresses_def)

section \<open>Clearing the WAF callback\<close>

lemma rules_loop_libAppSec:
  "libAppSec (fst (rules_loop valid rs (self, g, w))) = libAppSec self"
proof (induction rs arbitrary: self g w)
  case Nil
  show ?case by simp
next
  case (Cons rule rest)
  obtain g1 w1 where c: "conditions_loop valid (rule_id rule) (conditions rule) (g, w) = (g1, w1)"
    by (cases "conditions_loop valid (rule_id rule) (conditions rule) (g, w)")
  show ?case using Cons.IH c by (simp add: Let_def)
qed

lemma constructor_libAppSec:
  assumes "WAFCallback_constructor A native rules w = (Inr self, w1)"
  shows "libAppSec self = None"
proof (cases "loadDDWAF native rules w")
  case (Pair r w0)
  show ?thesis
  proof (cases r)
    case (Inl e)
    then show ?thesis using assms Pair by (simp add: WAFCallback_constructor_def)
  next
    case (Inr d)
    let ?self0 = "\<lparr>ddwaf = d, wafContextCache = Map.empty, ruleCache = Map.empty, libAppSec = None\<rparr>"
    from assms Pair Inr have "self = fst (rules_loop (validAddressSet A) rules (?self0, [], w0))"
      by (auto simp: WAFCallback_constructor_def Let_def split: prod.splits)
    then show ?thesis using rules_loop_libAppSec[of "validAddressSet A" rules ?self0 "[]" w0]
      by simp
  qed
qed

lemma action_wafContext_libAppSec:
  "action_wafContext self store = Inr (c, self1) \<Longrightarrow> libAppSec self1 = libAppSec self"
  by (auto simp: action_wafContext_def split: option.splits sum.splits)

lemma action_libAppSec:
  "libAppSec (fst (snd (action amb self params store w))) = libAppSec self"
  by (auto simp: action_def split: sum.splits prod.splits option.splits
      dest: action_wafContext_libAppSec)

text \<open>
  Claim C10. For every instance the constructor produces, \<open>clear\<close> throws a TypeError
  before the cache of matcher states or the subscriptions are cleared: the constructor
  stores the engine as \<open>ddwaf\<close> and never assigns \<open>libAppSec\<close>, which \<open>clear\<close>
  reads. The instance and the world are as before the call; the same holds for the
  instance after a call of \<open>action\<close>.
\<close>

theorem clear_throws_TypeError:
  assumes "WAFCallback_constructor A native rules w0 = (Inr self, w1)"
  shows "clear self w = (Some TypeError, self, w) \<and>
         clear (fst (snd (action amb self params store w2))) w =
           (Some TypeError, fst (snd (action amb self params store w2)), w)"
  using constructor_libAppSec[OF assms] action_libAppSec[of amb self params store w2]
  by (simp add: clear_def)

text \<open>The theorem at work: the instance constructed from the two rules of the example.\<close>

theorem clear_throws_TypeError_witness:
  "\<exists>self w1. WAFCallback_constructor example_Addresses (\<lambda>rules. Inr example_DDWAF)
                 [rule_mixed, rule_valid] initial = (Inr self, w1) \<and>
     clear self w1 = (Some TypeError, self, w1) \<and>
     Gateway_manager_calls w1 \<noteq> []"
proof -
  obtain r w1 where c: "WAFCallback_constructor example_Addresses (\<lambda>rules. Inr example_DDWAF)
                 [rule_mixed, rule_valid] initial = (r, w1)"
    by (cases "WAFCallback_constructor example_Addresses (\<lambda>rules. Inr example_DDWAF)
                 [rule_mixed, rule_valid] initial")
  then obtain self where r: "r = Inr self"
    by (auto simp: WAFCallback_constructor_def loadDDWAF_def Let_def split: prod.splits)
  have g: "Gateway_manager_calls w1 \<noteq> []"
    using c by (simp add: WAFCallback_constructor_def loadDDWAF_def rule_mixed_def rule_valid_def
      validAddressSet_def example_Addresses_def split_colon_first_def Array_from_Set_def initial_def
      less_eq_char_def less_char_def Let_def) auto
  from clear_throws_TypeError[OF c[unfolded r], of w1] c r g show ?thesis by blast
qed

section \<open>Errors of the matcher\<close>

lemma action_createContext_throws:
  "store = None \<Longrightarrow> createContext (ddwaf self) = Inl e \<Longrightarrow>
     action amb self params store w = (Some e, self, w)"
  by (simp add: action_def action_wafContext_def)

text \<open>
  Claim C9. When the matcher run of a call of \<open>action\<close> raises an error, the error is
  caught, the warning is logged, no event is reported and no exception leaves
  \<open>action\<close>: the call returns, the world differs from the one before only by the
  logged warning.
\<close>

theorem action_catches_run_error:
  assumes "action_wafContext self store = Inr (wafContext, self1)"
    and "ctx_run wafContext params DEFAULT_MAX_BUDGET = Inl err"
  shows "action amb self params store w =
           (None, self1, w\<lparr>logs := logs w @ [Warn ''Error while running the AppSec WAF'']\<rparr>) \<and>
         events (snd (snd (action amb self params store w))) = events w"
  using assms by (simp add: action_def)

text \<open>
  The theorem at work: the engine of the example, whose run throws, called in a request
  with a store and without one.
\<close>

theorem action_catches_run_error_witness:
  "action_wafContext example_instance (Some (Some 7)) =
     Inr (\<lparr>ctx_run = (\<lambda>params budget. Inl (Thrown ''budget exceeded''))\<rparr>,
          example_instance\<lparr>wafContextCache :=
             [7 \<mapsto> \<lparr>ctx_run = (\<lambda>params budget. Inl (Thrown ''budget exceeded''))\<rparr>]\<rparr>) \<and>
   ctx_run \<lparr>ctx_run = (\<lambda>params budget. Inl (Thrown ''budget exceeded''))\<rparr> (Obj []) DEFAULT_MAX_BUDGET =
     Inl (Thrown ''budget exceeded'') \<and>
   fst (action example_ambient example_instance (Obj []) (Some (Some 7)) world_reported) = None \<and>
   logs (snd (snd (action example_ambient example_instance (Obj []) (Some (Some 7)) world_reported))) =
     [Warn ''Error while running the AppSec WAF''] \<and>
   events (snd (snd (action example_ambient example_instance (Obj []) (Some (Some 7)) world_reported))) =
     events world_reported"
proof -
  have a: "action_wafContext example_instance (Some (Some 7)) =
     Inr (\<lparr>ctx_run = (\<lambda>params budget. Inl (Thrown ''budget exceeded''))\<rparr>,
          example_instance\<lparr>wafContextCache :=
             [7 \<mapsto> \<lparr>ctx_run = (\<lambda>params budget. Inl (Thrown ''budget exceeded''))\<rparr>]\<rparr>)"
    by (simp add: action_wafContext_def example_instance_def example_DDWAF_def)
  have b: "ctx_run \<lparr>ctx_run = (\<lambda>params budget. Inl (Thrown ''budget exceeded''))\<rparr> (Obj [])
             DEFAULT_MAX_BUDGET = Inl (Thrown ''budget exceeded'')"
    by simp
  have l: "logs world_reported = []" by (simp add: world_reported_eq initial_def)
  from action_catches_run_error[OF a b, of example_ambient world_reported] l a b
  show ?thesis by simp
qed

section \<open>Subscriptions and fingerprints\<close>














text \<open>
  For example, a rule with two conditions on the same two addresses, in another order
  and with a repetition, registers one subscription.
\<close>

lemma example_repeated_fingerprint:
  "Gateway_manager_calls
     (snd (WAFCallback_constructor example_Addresses (\<lambda>rules. Inr example_DDWAF)
             [rule_repeat] initial)) =
     [AddSubscription [''server.request.headers.no_cookies'', ''server.request.uri.raw'']]"
  by (simp add: WAFCallback_constructor_def loadDDWAF_def rule_repeat_def
      validAddressSet_def example_Addresses_def split_colon_first_def Array_from_Set_def initial_def
      less_eq_char_def less_char_def Let_def)

end
